theory Spec2Isabelle
  imports Complex_Main
begin

section \<open>Vectors, matrices, polytopes\<close>

text \<open>
  The sources work on \<^verbatim>\<open>std::vector<double>\<close> and vectors of those. Numbers are modelled
  as reals: rounding, infinities and NaN are left out. Where the sign of a zero matters
  (the coefficient finder), a separate type with a negative zero is used.
\<close>

type_synonym Vector = "real list"
type_synonym Matrix = "real list list"

text \<open>Unary minus on a vector (\<^verbatim>\<open>-this->dir_matrix[i]\<close>).\<close>

definition neg :: "Vector \<Rightarrow> Vector" where
  "neg v = map uminus v"

text \<open>Scalar product of an objective (or constraint row) with a point.\<close>

fun dot :: "Vector \<Rightarrow> Vector \<Rightarrow> real" where
  "dot (a # as) (x # xs) = a * x + dot as xs"
| "dot _ _ = 0"

text \<open>
  A polytope \<^verbatim>\<open>Polytope(A, b)\<close> is the pair of a constraint matrix and a right-hand side and
  denotes the points \<open>x\<close> with \<open>A x \<le> b\<close>.
\<close>

record Polytope =
  poly_A :: Matrix
  poly_b :: Vector

definition poly_dim :: "Polytope \<Rightarrow> nat" where
  "poly_dim P = (if poly_A P = [] then 0 else length (hd (poly_A P)))"

definition contains :: "Polytope \<Rightarrow> Vector \<Rightarrow> bool" where
  "contains P x \<longleftrightarrow>
     length x = poly_dim P \<and>
     (\<forall>i < length (poly_A P). dot (poly_A P ! i) x \<le> poly_b P ! i)"

section \<open>Parallelotopes and bundles (Bundle.h, Bundle.cpp)\<close>

text \<open>
  \<^verbatim>\<open>Parallelotope(Lambda, lbound, ubound)\<close>: the constructor's three arguments, in its order
  (template matrix, lower bounds, upper bounds). What the constructor derives from them
  (base vertex, versors, lengths) is not part of the sources at hand.
\<close>

record Parallelotope =
  Lambda :: Matrix
  lower_bound :: Vector
  upper_bound :: Vector

text \<open>
  The data members of \<^verbatim>\<open>class Bundle\<close>. Template entries are indices into the rows of the
  direction matrix. \<^verbatim>\<open>Theta\<close>, a table the constructor fills from \<^verbatim>\<open>dir_matrix\<close> alone,
  is not modelled.
\<close>

record Bundle =
  dir_matrix :: Matrix
  offp :: Vector
  offm :: Vector
  t_matrix :: "nat list list"
  constraintDirections :: Matrix
  constraintOffsets :: Vector

text \<open>\<^verbatim>\<open>Bundle::dim()\<close>, \<^verbatim>\<open>Bundle::size()\<close> and \<^verbatim>\<open>Bundle::num_of_templates()\<close>.\<close>

definition Bundle_dim :: "Bundle \<Rightarrow> nat" where
  "Bundle_dim B = (if length (dir_matrix B) = 0 then 0 else length (hd (dir_matrix B)))"

definition Bundle_size :: "Bundle \<Rightarrow> nat" where
  "Bundle_size B = length (dir_matrix B)"

definition num_of_templates :: "Bundle \<Rightarrow> nat" where
  "num_of_templates B = length (t_matrix B)"

text \<open>
  The ways a call can end without a value: \<^verbatim>\<open>exit(EXIT_FAILURE)\<close>, and a read past the
  end of a vector, which C++ leaves undefined and the model stops at.
\<close>

datatype failure = Exit_Failure | Out_Of_Bounds

text \<open>
  The four-argument constructor \<^verbatim>\<open>Bundle(dir_matrix, offp, offm, t_matrix)\<close> with its
  checks, in the order of the source. The assumption members stay empty.
\<close>

definition new_Bundle ::
  "Matrix \<Rightarrow> Vector \<Rightarrow> Vector \<Rightarrow> nat list list \<Rightarrow> failure + Bundle" where
  "new_Bundle D p m T =
     (if length D = 0 then Inl Exit_Failure
      else if length D \<noteq> length p then Inl Exit_Failure
      else if length D \<noteq> length m then Inl Exit_Failure
      else if length T > 0 then
        (if list_ex (\<lambda>row. length row \<noteq> length (hd D)) T then Inl Exit_Failure
         else Inr \<lparr>dir_matrix = D, offp = p, offm = m, t_matrix = T,
                    constraintDirections = [], constraintOffsets = []\<rparr>)
      else Inl Exit_Failure)"

text \<open>
  What the constructor has checked of a bundle, and the range of the template entries
  (which the constructor does not check and every indexing relies on).
\<close>

definition constructed :: "Bundle \<Rightarrow> bool" where
  "constructed B \<longleftrightarrow>
     dir_matrix B \<noteq> [] \<and> length (offp B) = length (dir_matrix B) \<and>
     length (offm B) = length (dir_matrix B) \<and> t_matrix B \<noteq> [] \<and>
     list_all (\<lambda>row. length row = Bundle_dim B) (t_matrix B)"

definition templates_in_range :: "Bundle \<Rightarrow> bool" where
  "templates_in_range B \<longleftrightarrow>
     list_all (\<lambda>row. list_all (\<lambda>idx. idx < Bundle_size B) row) (t_matrix B)"

text \<open>
  \<^verbatim>\<open>Bundle::operator Polytope()\<close>: two loops over \<^verbatim>\<open>i < size()\<close>, the first pushing
  \<^verbatim>\<open>dir_matrix[i]\<close> and \<^verbatim>\<open>offp[i]\<close>, the second \<^verbatim>\<open>-dir_matrix[i]\<close> and \<^verbatim>\<open>offm[i]\<close>.
\<close>

definition as_polytope :: "Bundle \<Rightarrow> Polytope" where
  "as_polytope B =
     \<lparr>poly_A = map (\<lambda>i. dir_matrix B ! i) [0..<Bundle_size B] @
               map (\<lambda>i. neg (dir_matrix B ! i)) [0..<Bundle_size B],
      poly_b = map (\<lambda>i. offp B ! i) [0..<Bundle_size B] @
               map (\<lambda>i. offm B ! i) [0..<Bundle_size B]\<rparr>"

text \<open>
  The point set a bundle denotes, in the words of the specification: the points that
  satisfy, for every row \<open>i\<close> of the direction matrix, \<open>D[i] x \<le> offp[i]\<close> and
  \<open>-D[i] x \<le> offm[i]\<close>.
\<close>

definition bundle_contains :: "Bundle \<Rightarrow> Vector \<Rightarrow> bool" where
  "bundle_contains B x \<longleftrightarrow>
     length x = Bundle_dim B \<and>
     (\<forall>i < Bundle_size B.
        dot (dir_matrix B ! i) x \<le> offp B ! i \<and> - dot (dir_matrix B ! i) x \<le> offm B ! i)"

text \<open>
  The conversion as the specification words it: the rows of \<^verbatim>\<open>as_polytope\<close> followed by
  one row per assumption half-space recorded on the bundle.
\<close>

definition as_polytope_with_assumptions :: "Bundle \<Rightarrow> Polytope" where
  "as_polytope_with_assumptions B =
     \<lparr>poly_A = (dir_matrix B @ map neg (dir_matrix B)) @ constraintDirections B,
      poly_b = (offp B @ offm B) @ constraintOffsets B\<rparr>"

text \<open>
  \<^verbatim>\<open>Bundle::getParallelotope(i)\<close>. The guard rejects \<^verbatim>\<open>i > t_matrix.size()\<close> only; the
  loop then reads the first \<^verbatim>\<open>dim()\<close> entries of \<^verbatim>\<open>t_matrix[i]\<close> and, for each entry
  \<^verbatim>\<open>idx\<close>, \<^verbatim>\<open>dir_matrix[idx]\<close>, \<^verbatim>\<open>offp[idx]\<close> and \<^verbatim>\<open>offm[idx]\<close>.
\<close>

definition getParallelotope :: "Bundle \<Rightarrow> nat \<Rightarrow> failure + Parallelotope" where
  "getParallelotope B i =
     (if i > length (t_matrix B) then Inl Exit_Failure
      else if i = length (t_matrix B) then Inl Out_Of_Bounds
      else
        let row = t_matrix B ! i; idxs = take (Bundle_dim B) row in
        if length row < Bundle_dim B \<or>
           list_ex (\<lambda>idx. idx \<ge> Bundle_size B \<or> idx \<ge> length (offp B) \<or>
                           idx \<ge> length (offm B)) idxs
        then Inl Out_Of_Bounds
        else Inr \<lparr>Lambda = map (\<lambda>idx. dir_matrix B ! idx) idxs,
                   lower_bound = map (\<lambda>idx. offm B ! idx) idxs,
                   upper_bound = map (\<lambda>idx. offp B ! idx) idxs\<rparr>)"

text \<open>
  \<^verbatim>\<open>Bundle::get_canonical()\<close>. \<^verbatim>\<open>Polytope::maximize\<close> is a call into the linear-programming
  client, which is not among the sources: it is the parameter \<open>maximize\<close>.
\<close>

definition get_canonical ::
  "(Polytope \<Rightarrow> Vector \<Rightarrow> real) \<Rightarrow> Bundle \<Rightarrow> failure + Bundle" where
  "get_canonical maximize B =
     (let bund = as_polytope B;
          canoffp = map (\<lambda>i. maximize bund (dir_matrix B ! i)) [0..<Bundle_size B];
          canoffm = map (\<lambda>i. maximize bund (neg (dir_matrix B ! i))) [0..<Bundle_size B]
      in new_Bundle (dir_matrix B) canoffp canoffm (t_matrix B))"

text \<open>
  What the linear-programming client is taken to return: \<open>v\<close> is the maximum of the
  objective over the polytope when some point of the polytope attains it and no point
  exceeds it; a solver is exact when it returns that maximum wherever one exists.
\<close>

definition is_maximum :: "Polytope \<Rightarrow> Vector \<Rightarrow> real \<Rightarrow> bool" where
  "is_maximum P obj v \<longleftrightarrow>
     (\<exists>x. contains P x \<and> dot obj x = v) \<and> (\<forall>x. contains P x \<longrightarrow> dot obj x \<le> v)"

definition lp_exact :: "(Polytope \<Rightarrow> Vector \<Rightarrow> real) \<Rightarrow> bool" where
  "lp_exact maximize \<longleftrightarrow> (\<forall>P obj v. is_maximum P obj v \<longrightarrow> maximize P obj = v)"

definition optimum_available :: "Bundle \<Rightarrow> bool" where
  "optimum_available B \<longleftrightarrow>
     (\<forall>i < Bundle_size B.
        (\<exists>v. is_maximum (as_polytope B) (dir_matrix B ! i) v) \<and>
        (\<exists>v. is_maximum (as_polytope B) (neg (dir_matrix B ! i)) v))"

section \<open>The coefficient finder (Bundle.h, Bundle.cpp)\<close>

text \<open>
  The value of \<^verbatim>\<open>Expression::evaluate<double>()\<close> on a constant Bernstein coefficient. The
  finder distinguishes the two zeros of the floating-point format, so the model of a
  double here is a real number or the negative zero; \<open>Num 0\<close> is the positive zero.
  Rounding, infinities and NaN are left out. Comparisons (\<^verbatim>\<open>==\<close>, \<^verbatim>\<open>>\<close>) read the numeric
  value, under which the two zeros are equal.
\<close>

datatype double = Neg_Zero | Num real

fun val :: "double \<Rightarrow> real" where
  "val Neg_Zero = 0"
| "val (Num r) = r"

text \<open>Unary minus on a double: it flips the sign, also of a zero.\<close>

fun dneg :: "double \<Rightarrow> double" where
  "dneg Neg_Zero = Num 0"
| "dneg (Num r) = (if r = 0 then Neg_Zero else Num (- r))"

text \<open>\<^verbatim>\<open>struct MaxCoeffType { double p; double m; }\<close>.\<close>

record MaxCoeffType =
  max_p :: double
  max_m :: double

text \<open>
  \<^verbatim>\<open>MaxCoeffFinder::coeff_eval_p\<close> and \<^verbatim>\<open>MaxCoeffFinder::coeff_eval_m\<close> of the plain finder.
  The symbolic-algebra library is not among the sources: \<open>evaluate\<close> is the parameter
  that gives a coefficient its double.
\<close>

definition coeff_eval_p :: "('e \<Rightarrow> double) \<Rightarrow> 'e \<Rightarrow> double" where
  "coeff_eval_p evaluate c = evaluate c"

definition coeff_eval_m :: "('e \<Rightarrow> double) \<Rightarrow> 'e \<Rightarrow> double" where
  "coeff_eval_m evaluate bernCoeff =
     (let v = evaluate bernCoeff in if val v = 0 then Num 0 else dneg v)"

text \<open>
  \<^verbatim>\<open>MaxCoeffFinder::find_max_coeffs\<close>: the first coefficient initialises both maxima, the
  loop over the remaining ones replaces a maximum by a strictly greater value. On an
  empty list the source dereferences \<^verbatim>\<open>begin()\<close>.
\<close>

definition max_step :: "('e \<Rightarrow> double) \<Rightarrow> 'e \<Rightarrow> double \<times> double \<Rightarrow> double \<times> double" where
  "max_step evaluate c acc =
     (let maxCoeffp = fst acc; maxCoeffm = snd acc;
          actCoeff = coeff_eval_p evaluate c;
          maxCoeffp = (if val actCoeff > val maxCoeffp then actCoeff else maxCoeffp);
          actCoeff = coeff_eval_m evaluate c;
          maxCoeffm = (if val actCoeff > val maxCoeffm then actCoeff else maxCoeffm)
      in (maxCoeffp, maxCoeffm))"

definition find_max_coeffs :: "('e \<Rightarrow> double) \<Rightarrow> 'e list \<Rightarrow> failure + MaxCoeffType" where
  "find_max_coeffs evaluate b_coeffs =
     (case b_coeffs of
        [] \<Rightarrow> Inl Out_Of_Bounds
      | c # cs \<Rightarrow>
          (let r = fold (max_step evaluate) cs (coeff_eval_p evaluate c, coeff_eval_m evaluate c)
           in Inr \<lparr>max_p = fst r, max_m = snd r\<rparr>))"

section \<open>The one-step image of a bundle (Bundle.h, Bundle.cpp)\<close>

text \<open>
  The two transformation modes, as the \<^verbatim>\<open>int mode\<close> parameter of the \<^verbatim>\<open>Bundle::transform\<close>
  that \<^verbatim>\<open>Bundle.cpp\<close> defines. The documentation of the function gives the encoding as
  \<^verbatim>\<open>(0=OFO,1=AFO)\<close>, and \<^verbatim>\<open>AbsSyn.h\<close> documents the same for the value the caller passes
  (\<^verbatim>\<open>AFO = 1, OFO = 0\<close>). The body compares the mode with zero only.
\<close>

definition OFO :: int where
  "OFO = 0"

definition AFO :: int where
  "AFO = 1"

text \<open>\<^verbatim>\<open>std::numeric_limits<double>::max()\<close>, the initial value of a \<^verbatim>\<open>minCoeffType\<close>.\<close>

definition DBL_MAX :: real where
  "DBL_MAX = (2 ^ 53 - 1) * 2 ^ 971"

text \<open>\<^verbatim>\<open>minCoeffType::update\<close>: the stored value is replaced by a strictly smaller one.\<close>

definition update :: "real \<Rightarrow> real \<Rightarrow> real" where
  "update stored v = (if stored > v then v else stored)"

text \<open>A loop whose body can fail: it stops at the first failure.\<close>

fun foldE :: "('a \<Rightarrow> 's \<Rightarrow> failure + 's) \<Rightarrow> 'a list \<Rightarrow> 's \<Rightarrow> failure + 's" where
  "foldE f [] s = Inr s"
| "foldE f (x # xs) s = (case f x s of Inl e \<Rightarrow> Inl e | Inr s' \<Rightarrow> foldE f xs s')"

text \<open>
  The body of the direction loop of \<^verbatim>\<open>minimizeCoeffs\<close> for one direction \<^verbatim>\<open>dir_b\<close>. The
  parameter \<open>max_finder\<close> stands for the chain the source runs on the parallelotope and
  the direction row (generator functions, substitution into the dynamics, Bernstein
  coefficients, \<^verbatim>\<open>max_finder->find_max_coeffs\<close>), whose symbolic parts are not among the
  sources; the two tables take the numeric values of its result.
\<close>

definition bound_dir ::
  "(Parallelotope \<Rightarrow> Vector \<Rightarrow> MaxCoeffType) \<Rightarrow> Bundle \<Rightarrow> Parallelotope \<Rightarrow> nat \<Rightarrow>
   Vector \<times> Vector \<Rightarrow> Vector \<times> Vector" where
  "bound_dir max_finder bundle P dir_b coeffs =
     (let tp_coeffs = fst coeffs; tm_coeffs = snd coeffs;
          maxCoeff = max_finder P (dir_matrix bundle ! dir_b)
      in (tp_coeffs[dir_b := update (tp_coeffs ! dir_b) (val (max_p maxCoeff))],
          tm_coeffs[dir_b := update (tm_coeffs ! dir_b) (val (max_m maxCoeff))]))"

text \<open>
  The lambda \<^verbatim>\<open>minimizeCoeffs\<close> of \<^verbatim>\<open>Bundle::transform\<close> for one template: with
  \<^verbatim>\<open>mode == 0\<close> the loop runs over the entries of the template row and bounds the
  directions they name, otherwise it runs over every row of the direction matrix.
\<close>

definition minimizeCoeffs ::
  "(Parallelotope \<Rightarrow> Vector \<Rightarrow> MaxCoeffType) \<Rightarrow> int \<Rightarrow> Bundle \<Rightarrow> nat \<Rightarrow>
   Vector \<times> Vector \<Rightarrow> failure + Vector \<times> Vector" where
  "minimizeCoeffs max_finder mode bundle template_num coeffs =
     (case getParallelotope bundle template_num of
        Inl e \<Rightarrow> Inl e
      | Inr P \<Rightarrow>
          let t_matrix_i = t_matrix bundle ! template_num;
              num_of_dirs = (if mode = 0 then length t_matrix_i else length (dir_matrix bundle))
          in if mode = 0 \<and> list_ex (\<lambda>idx. idx \<ge> length (dir_matrix bundle)) t_matrix_i
             then Inl Out_Of_Bounds
             else Inr (fold (\<lambda>j. bound_dir max_finder bundle P
                                   (if mode = 0 then t_matrix_i ! j else j))
                         [0..<num_of_dirs] coeffs))"

text \<open>
  The two tables after the loop over all templates (the source's sequential variant),
  each entry starting from \<^verbatim>\<open>DBL_MAX\<close>.
\<close>

definition bound_offsets ::
  "(Parallelotope \<Rightarrow> Vector \<Rightarrow> MaxCoeffType) \<Rightarrow> int \<Rightarrow> Bundle \<Rightarrow> failure + Vector \<times> Vector" where
  "bound_offsets max_finder mode B =
     foldE (minimizeCoeffs max_finder mode B) [0..<num_of_templates B]
       (replicate (Bundle_size B) DBL_MAX, replicate (Bundle_size B) DBL_MAX)"

text \<open>
  \<^verbatim>\<open>Bundle::transform(vars, f, max_finder, int mode)\<close>: the result is built by the
  four-argument constructor from the unchanged direction and template matrices and the
  two tables, and with \<^verbatim>\<open>mode == 0\<close> it is canonicalised before it is returned.
\<close>

definition transform ::
  "(Parallelotope \<Rightarrow> Vector \<Rightarrow> MaxCoeffType) \<Rightarrow> (Polytope \<Rightarrow> Vector \<Rightarrow> real) \<Rightarrow> int \<Rightarrow>
   Bundle \<Rightarrow> failure + Bundle" where
  "transform max_finder maximize mode B =
     (case bound_offsets max_finder mode B of
        Inl e \<Rightarrow> Inl e
      | Inr coeffs \<Rightarrow>
          (case new_Bundle (dir_matrix B) (fst coeffs) (snd coeffs) (t_matrix B) of
             Inl e \<Rightarrow> Inl e
           | Inr res \<Rightarrow> if mode = 0 then get_canonical maximize res else Inr res))"

text \<open>
  For the statements about the two tables: the parallelotope of template \<open>i\<close> of a
  bundle with the entries \<^verbatim>\<open>getParallelotope\<close> reads for it, and the two bounds the finder
  gives for direction \<open>d\<close> on the image of that parallelotope.
\<close>

definition template_parallelotope :: "Bundle \<Rightarrow> nat \<Rightarrow> Parallelotope" where
  "template_parallelotope B i =
     \<lparr>Lambda = map (\<lambda>idx. dir_matrix B ! idx) (t_matrix B ! i),
      lower_bound = map (\<lambda>idx. offm B ! idx) (t_matrix B ! i),
      upper_bound = map (\<lambda>idx. offp B ! idx) (t_matrix B ! i)\<rparr>"

definition bound_p ::
  "(Parallelotope \<Rightarrow> Vector \<Rightarrow> MaxCoeffType) \<Rightarrow> Bundle \<Rightarrow> nat \<Rightarrow> nat \<Rightarrow> real" where
  "bound_p max_finder B i d =
     val (max_p (max_finder (template_parallelotope B i) (dir_matrix B ! d)))"

definition bound_m ::
  "(Parallelotope \<Rightarrow> Vector \<Rightarrow> MaxCoeffType) \<Rightarrow> Bundle \<Rightarrow> nat \<Rightarrow> nat \<Rightarrow> real" where
  "bound_m max_finder B i d =
     val (max_m (max_finder (template_parallelotope B i) (dir_matrix B ! d)))"

section \<open>Reachability (Sapo.cpp)\<close>

text \<open>
  The members of the \<^verbatim>\<open>Sapo\<close> object that \<^verbatim>\<open>Sapo::reach\<close> reads, and the operations it calls
  whose code is not among the sources, as parameters:
  \<^verbatim>\<open>ds.transform(bundle, sapo->t_mode)\<close>, \<^verbatim>\<open>Bundle::intersect_with(sapo->assumptions)\<close>,
  \<^verbatim>\<open>Bundle::decompose\<close> (which draws random numbers), \<^verbatim>\<open>Bundle::is_empty\<close>,
  \<^verbatim>\<open>Bundle::split\<close>, and, on a union of polytopes (a list of them),
  \<^verbatim>\<open>SetsUnion<Polytope>::add\<close> and \<^verbatim>\<open>simplify\<close>.
\<close>

record Sapo =
  decomp :: int
  decomp_weight :: real
  max_bundle_magnitude :: real
  ds_transform :: "Bundle \<Rightarrow> Bundle"
  intersect_with :: "Bundle \<Rightarrow> Bundle"
  decompose :: "Bundle \<Rightarrow> real \<Rightarrow> int \<Rightarrow> Bundle"
  is_empty :: "Bundle \<Rightarrow> bool"
  split :: "Bundle \<Rightarrow> real \<Rightarrow> real \<Rightarrow> Bundle list"
  su_add :: "Polytope list \<Rightarrow> Polytope \<Rightarrow> Polytope list"
  su_simplify :: "Polytope list \<Rightarrow> Polytope list"







section \<open>STL formulas (STL.h)\<close>

text \<open>
  Modelled from the spec: the symbolic-algebra library is not among the sources. An
  expression is a polynomial over symbols (identified by number) and constants, and it
  evaluates to a number once every symbol has a value.
\<close>

datatype Expression =
  Const real
| Sym nat
| Add Expression Expression
| Sub Expression Expression
| Mul Expression Expression
| Neg Expression

fun evaluate_at :: "(nat \<Rightarrow> real) \<Rightarrow> Expression \<Rightarrow> real" where
  "evaluate_at env (Const c) = c"
| "evaluate_at env (Sym n) = env n"
| "evaluate_at env (Add x y) = evaluate_at env x + evaluate_at env y"
| "evaluate_at env (Sub x y) = evaluate_at env x - evaluate_at env y"
| "evaluate_at env (Mul x y) = evaluate_at env x * evaluate_at env y"
| "evaluate_at env (Neg x) = - evaluate_at env x"

text \<open>
  The formula types of \<^verbatim>\<open>enum formula_type\<close>, each with what its class holds: an atom its
  expression (satisfied when the expression is at most zero), the temporal operators
  the two integer bounds of their time interval. \<^verbatim>\<open>Until\<close> takes its arguments in the
  order of the constructor call in \<^verbatim>\<open>Sapo.cpp\<close>: left subformula, bounds, right
  subformula.
\<close>

datatype STL =
  Atom Expression
| Conjunction STL STL
| Disjunction STL STL
| Until STL int int STL
| Always int int STL
| Eventually int int STL
| Negation STL

section \<open>Parameter synthesis (Sapo.cpp)\<close>

text \<open>
  The two exceptions \<^verbatim>\<open>Sapo::synthesize\<close> throws: the \<^verbatim>\<open>std::runtime_error\<close>
  "Assumptions not supported in synthesis yet." and the \<^verbatim>\<open>std::logic_error\<close>
  "Unsupported formula".
\<close>

datatype error = Assumptions_Not_Supported | Unsupported_Formula

text \<open>
  What synthesis reads of the \<^verbatim>\<open>Sapo\<close> object and the operations it calls whose code is
  not among the sources, as parameters. A set of parameters is a union of polytopes, a
  list of them (\<^verbatim>\<open>SetsUnion<Polytope>\<close>); bundles and polytopes are left abstract.
  \<^item> \<open>assumptions_size\<close>: \<^verbatim>\<open>this->assumptions.size()\<close>;
  \<^item> \<open>atom_synthesis\<close>: \<^verbatim>\<open>::synthesize(dynamical_system, init_set, pSet, atom)\<close>;
  \<^item> \<open>param_transform\<close>: the parametric one-step transformation of a bundle;
  \<^item> \<open>intersect\<close>, \<open>unite\<close>, \<open>union_is_empty\<close>, \<open>union_simplify\<close>: \<^verbatim>\<open>intersect\<close>,
    \<^verbatim>\<open>SetsUnion::add\<close> of a union, \<^verbatim>\<open>SetsUnion::is_empty\<close> and \<^verbatim>\<open>simplify\<close>;
  \<^item> \<open>polytope_split\<close>: \<^verbatim>\<open>Polytope::split(num_of_polytope_splits)\<close>.
\<close>

record ('b, 'q) Synthesizer =
  assumptions_size :: nat
  atom_synthesis :: "'b \<Rightarrow> 'q list \<Rightarrow> Expression \<Rightarrow> 'q list"
  param_transform :: "'b \<Rightarrow> 'q list \<Rightarrow> 'b"
  intersect :: "'q list \<Rightarrow> 'q list \<Rightarrow> 'q list"
  unite :: "'q list \<Rightarrow> 'q list \<Rightarrow> 'q list"
  union_is_empty :: "'q list \<Rightarrow> bool"
  union_simplify :: "'q list \<Rightarrow> 'q list"
  polytope_split :: "'q \<Rightarrow> nat \<Rightarrow> 'q list"

text \<open>
  Modelled from the spec: \<^verbatim>\<open>TimeInterval\<close> is not among the sources. The interval of a
  temporal operator with bounds \<open>a\<close> and \<open>b\<close> is the closed interval \<open>[a, b]\<close>: it is empty
  when \<open>b < a\<close>, and it lies ahead of a time \<open>t\<close> (\<^verbatim>\<open>t_interval > time\<close>) when \<open>t < a\<close>.
\<close>

definition interval_is_empty :: "int \<Rightarrow> int \<Rightarrow> bool" where
  "interval_is_empty a b \<longleftrightarrow> b < a"

definition interval_ahead_of :: "int \<Rightarrow> int \<Rightarrow> int \<Rightarrow> bool" where
  "interval_ahead_of a b time \<longleftrightarrow> time < a"

text \<open>
  Modelled from the spec: \<^verbatim>\<open>transition_and_synthesis\<close> is not among the sources. It
  replaces the initial set by its one-step transform under the parameter set retained so
  far and synthesises the same formula at the next time; an empty parameter set
  short-circuits the branch. The synthesis at the next time is the argument \<open>synth_next\<close>.
\<close>

definition transition_and_synthesis ::
  "('b, 'q) Synthesizer \<Rightarrow> 'b \<Rightarrow> 'q list \<Rightarrow> ('b \<Rightarrow> 'q list \<Rightarrow> error + 'q list) \<Rightarrow>
   error + 'q list" where
  "transition_and_synthesis S init_set pSet synth_next =
     (if union_is_empty S pSet then Inr []
      else synth_next (param_transform S init_set pSet) pSet)"

text \<open>The size of a formula that the recursion of synthesis descends on.\<close>

fun weight :: "STL \<Rightarrow> nat" where
  "weight (Atom e) = 1"
| "weight (Conjunction l r) = 1 + weight l + weight r"
| "weight (Disjunction l r) = 1 + weight l + weight r"
| "weight (Until l a b r) = 1 + weight l + weight r"
| "weight (Always a b f) = 1 + weight f"
| "weight (Eventually a b f) = 3 + weight f"
| "weight (Negation f) = 1 + weight f"

text \<open>
  \<^verbatim>\<open>Sapo::synthesize(init_set, pSet, formula)\<close> with the overloads it dispatches to.
  \<^item> \<open>synthesize\<close> is the dispatcher: it throws on a non-empty assumption set, then
    switches on the type of the formula; the cases for atoms, conjunctions, disjunctions
    and eventually-formulas hold the bodies of those overloads, and a negation falls to
    the \<^verbatim>\<open>default\<close> branch.
  \<^item> \<open>synthesize_until\<close> and \<open>synthesize_always\<close> are the overloads that take the time of
    the current evaluation.
  An exception of a call ends the caller.
\<close>

function synthesize ::
    "('b, 'q) Synthesizer \<Rightarrow> 'b \<Rightarrow> 'q list \<Rightarrow> STL \<Rightarrow> error + 'q list"
  and synthesize_until ::
    "('b, 'q) Synthesizer \<Rightarrow> 'b \<Rightarrow> 'q list \<Rightarrow> STL \<Rightarrow> int \<Rightarrow> int \<Rightarrow> STL \<Rightarrow> int \<Rightarrow>
     error + 'q list"
  and synthesize_always ::
    "('b, 'q) Synthesizer \<Rightarrow> 'b \<Rightarrow> 'q list \<Rightarrow> int \<Rightarrow> int \<Rightarrow> STL \<Rightarrow> int \<Rightarrow> error + 'q list"
where
  "synthesize S init_set pSet formula =
     (if assumptions_size S > 0 then Inl Assumptions_Not_Supported
      else
        (case formula of
           Atom e \<Rightarrow> Inr (atom_synthesis S init_set pSet e)
         | Conjunction l r \<Rightarrow>
             (case synthesize S init_set pSet l of
                Inl err \<Rightarrow> Inl err
              | Inr Pu1 \<Rightarrow>
                  (case synthesize S init_set pSet r of
                     Inl err \<Rightarrow> Inl err
                   | Inr Pu2 \<Rightarrow> Inr (intersect S Pu1 Pu2)))
         | Disjunction l r \<Rightarrow>
             (case synthesize S init_set pSet l of
                Inl err \<Rightarrow> Inl err
              | Inr Pu \<Rightarrow>
                  (case synthesize S init_set pSet r of
                     Inl err \<Rightarrow> Inl err
                   | Inr Pu2 \<Rightarrow> Inr (unite S Pu Pu2)))
         | Until l a b r \<Rightarrow> synthesize_until S init_set pSet l a b r 0
         | Always a b f \<Rightarrow> synthesize_always S init_set pSet a b f 0
         | Eventually a b f \<Rightarrow> synthesize_until S init_set pSet (Atom (Const (- 1))) a b f 0
         | Negation f \<Rightarrow> Inl Unsupported_Formula))"
| "synthesize_until S init_set pSet l a b r time =
     (if interval_is_empty a b then Inr []
      else if interval_ahead_of a b time then
        (case synthesize S init_set pSet l of
           Inl err \<Rightarrow> Inl err
         | Inr P1 \<Rightarrow>
             if union_is_empty S P1 then Inr P1
             else transition_and_synthesis S init_set P1
                    (\<lambda>i p. synthesize_until S i p l a b r (time + 1)))
      else if b > time then
        (case synthesize S init_set pSet l of
           Inl err \<Rightarrow> Inl err
         | Inr P1 \<Rightarrow>
             if union_is_empty S P1 then synthesize S init_set pSet r
             else
               (case transition_and_synthesis S init_set P1
                       (\<lambda>i p. synthesize_until S i p l a b r (time + 1)) of
                  Inl err \<Rightarrow> Inl err
                | Inr result \<Rightarrow>
                    (case synthesize S init_set pSet r of
                       Inl err \<Rightarrow> Inl err
                     | Inr P2 \<Rightarrow> Inr (unite S result P2))))
      else synthesize S init_set pSet r)"
| "synthesize_always S init_set pSet a b f time =
     (if interval_is_empty a b then Inr []
      else if interval_ahead_of a b time then
        transition_and_synthesis S init_set pSet
          (\<lambda>i p. synthesize_always S i p a b f (time + 1))
      else if b > time then
        (case synthesize S init_set pSet f of
           Inl err \<Rightarrow> Inl err
         | Inr P \<Rightarrow>
             if union_is_empty S P then Inr P
             else transition_and_synthesis S init_set P
                    (\<lambda>i p. synthesize_always S i p a b f (time + 1)))
      else synthesize S init_set pSet f)"
  by pat_completeness auto
termination
  by (relation "inv_image (less_than <*lex*> less_than)
        (\<lambda>x. case x of
           Inl (S, init_set, pSet, formula) \<Rightarrow> (2 * weight formula + 1, 0)
         | Inr (Inl (S, init_set, pSet, l, a, b, r, time)) \<Rightarrow>
             (2 * (1 + weight l + weight r), nat (b - time))
         | Inr (Inr (S, init_set, pSet, a, b, f, time)) \<Rightarrow>
             (2 * (1 + weight f), nat (b - time)))")
    (auto simp: interval_is_empty_def interval_ahead_of_def)

declare synthesize.simps [simp del]
declare synthesize_until.simps [simp del]
declare synthesize_always.simps [simp del]







text \<open>
  The parameter valuations a union of polytopes denotes, given the valuations each
  polytope denotes, and what the claims about synthesis assume of the operations that
  are parameters: intersection and union of unions denote the intersection and the
  union of the sets, and atom synthesis returns a subset of its parameter set and is
  monotone in it.
\<close>

definition union_points :: "('q \<Rightarrow> 'p set) \<Rightarrow> 'q list \<Rightarrow> 'p set" where
  "union_points pts U = (\<Union>q \<in> set U. pts q)"

definition set_operations :: "('q \<Rightarrow> 'p set) \<Rightarrow> ('b, 'q) Synthesizer \<Rightarrow> bool" where
  "set_operations pts S \<longleftrightarrow>
     (\<forall>U V. union_points pts (intersect S U V) = union_points pts U \<inter> union_points pts V) \<and>
     (\<forall>U V. union_points pts (unite S U V) = union_points pts U \<union> union_points pts V)"

definition atom_refines :: "('q \<Rightarrow> 'p set) \<Rightarrow> ('b, 'q) Synthesizer \<Rightarrow> bool" where
  "atom_refines pts S \<longleftrightarrow>
     (\<forall>init_set U e. union_points pts (atom_synthesis S init_set U e) \<subseteq> union_points pts U)"

definition atom_monotone :: "('q \<Rightarrow> 'p set) \<Rightarrow> ('b, 'q) Synthesizer \<Rightarrow> bool" where
  "atom_monotone pts S \<longleftrightarrow>
     (\<forall>init_set U V e. union_points pts U \<subseteq> union_points pts V \<longrightarrow>
        union_points pts (atom_synthesis S init_set U e) \<subseteq>
        union_points pts (atom_synthesis S init_set V e))"

text \<open>Formulas without a temporal operator, and formulas without a negation.\<close>

fun propositional :: "STL \<Rightarrow> bool" where
  "propositional (Atom e) = True"
| "propositional (Conjunction l r) = (propositional l \<and> propositional r)"
| "propositional (Disjunction l r) = (propositional l \<and> propositional r)"
| "propositional (Until l a b r) = False"
| "propositional (Always a b f) = False"
| "propositional (Eventually a b f) = False"
| "propositional (Negation f) = False"

fun negation_free :: "STL \<Rightarrow> bool" where
  "negation_free (Atom e) = True"
| "negation_free (Conjunction l r) = (negation_free l \<and> negation_free r)"
| "negation_free (Disjunction l r) = (negation_free l \<and> negation_free r)"
| "negation_free (Until l a b r) = (negation_free l \<and> negation_free r)"
| "negation_free (Always a b f) = negation_free f"
| "negation_free (Eventually a b f) = negation_free f"
| "negation_free (Negation f) = False"

section \<open>Positive normal form (STL.h)\<close>

text \<open>
  Modelled from the spec: \<^verbatim>\<open>STL::get_PNF\<close> is pure virtual in \<^verbatim>\<open>STL.h\<close> and
  \<^verbatim>\<open>Formula::simplify\<close> is only declared in \<^verbatim>\<open>AbsSyn.h\<close>; the code of neither is among the
  sources. The rewrite follows the rules of the specification: a negation is pushed
  through conjunction, disjunction, always and eventually by duality, a double negation is
  dropped, the negation of an until \<open>l U[a,b] r\<close> becomes
  \<open>(\<not>r U[a,b] (\<not>l \<and> \<not>r)) \<or> G[a,b] \<not>r\<close>, and the negation of an atom \<open>p \<le> 0\<close> becomes the atom
  \<open>-p \<le> 0\<close> (the specification's \<open>-p - \<epsilon>\<close> with \<open>\<epsilon> = 0\<close>). \<open>PNF_neg f\<close> is the normal form of
  the negation of \<open>f\<close>.
\<close>

fun PNF :: "STL \<Rightarrow> STL" and PNF_neg :: "STL \<Rightarrow> STL" where
  "PNF (Atom e) = Atom e"
| "PNF (Conjunction l r) = Conjunction (PNF l) (PNF r)"
| "PNF (Disjunction l r) = Disjunction (PNF l) (PNF r)"
| "PNF (Until l a b r) = Until (PNF l) a b (PNF r)"
| "PNF (Always a b f) = Always a b (PNF f)"
| "PNF (Eventually a b f) = Eventually a b (PNF f)"
| "PNF (Negation f) = PNF_neg f"
| "PNF_neg (Atom e) = Atom (Neg e)"
| "PNF_neg (Conjunction l r) = Disjunction (PNF_neg l) (PNF_neg r)"
| "PNF_neg (Disjunction l r) = Conjunction (PNF_neg l) (PNF_neg r)"
| "PNF_neg (Until l a b r) =
     Disjunction (Until (PNF_neg r) a b (Conjunction (PNF_neg l) (PNF_neg r)))
                 (Always a b (PNF_neg r))"
| "PNF_neg (Always a b f) = Eventually a b (PNF_neg f)"
| "PNF_neg (Eventually a b f) = Always a b (PNF_neg f)"
| "PNF_neg (Negation f) = PNF f"

text \<open>
  Modelled from the spec: satisfaction of a formula by a trajectory at a time. A
  trajectory gives every time a valuation of the symbols. An atom holds when its
  expression is at most zero; the temporal operators take their bounds relative to the
  current time; and \<open>l U[a,b] r\<close> holds when \<open>r\<close> holds at some time of the interval and \<open>l\<close>
  at every time from the current one up to there, which is the unfolding
  \<^verbatim>\<open>Sapo::synthesize\<close> performs on an until-formula.
\<close>

fun sat :: "(int \<Rightarrow> nat \<Rightarrow> real) \<Rightarrow> int \<Rightarrow> STL \<Rightarrow> bool" where
  "sat \<sigma> t (Atom e) = (evaluate_at (\<sigma> t) e \<le> 0)"
| "sat \<sigma> t (Conjunction l r) = (sat \<sigma> t l \<and> sat \<sigma> t r)"
| "sat \<sigma> t (Disjunction l r) = (sat \<sigma> t l \<or> sat \<sigma> t r)"
| "sat \<sigma> t (Until l a b r) =
     (\<exists>t' \<in> {t + a .. t + b}. sat \<sigma> t' r \<and> (\<forall>t'' \<in> {t ..< t'}. sat \<sigma> t'' l))"
| "sat \<sigma> t (Always a b f) = (\<forall>t' \<in> {t + a .. t + b}. sat \<sigma> t' f)"
| "sat \<sigma> t (Eventually a b f) = (\<exists>t' \<in> {t + a .. t + b}. sat \<sigma> t' f)"
| "sat \<sigma> t (Negation f) = (\<not> sat \<sigma> t f)"

text \<open>
  The formulas and trajectories on which the rewrite is exact: every until below an odd
  number of negations has the lower bound zero, and no atom below an odd number of
  negations is exactly zero along the trajectory. \<open>exact_neg\<close> is the condition for a
  formula that stands below a negation.
\<close>

fun exact :: "(int \<Rightarrow> nat \<Rightarrow> real) \<Rightarrow> STL \<Rightarrow> bool"
  and exact_neg :: "(int \<Rightarrow> nat \<Rightarrow> real) \<Rightarrow> STL \<Rightarrow> bool" where
  "exact \<sigma> (Atom e) = True"
| "exact \<sigma> (Conjunction l r) = (exact \<sigma> l \<and> exact \<sigma> r)"
| "exact \<sigma> (Disjunction l r) = (exact \<sigma> l \<and> exact \<sigma> r)"
| "exact \<sigma> (Until l a b r) = (exact \<sigma> l \<and> exact \<sigma> r)"
| "exact \<sigma> (Always a b f) = exact \<sigma> f"
| "exact \<sigma> (Eventually a b f) = exact \<sigma> f"
| "exact \<sigma> (Negation f) = exact_neg \<sigma> f"
| "exact_neg \<sigma> (Atom e) = (\<forall>t. evaluate_at (\<sigma> t) e \<noteq> 0)"
| "exact_neg \<sigma> (Conjunction l r) = (exact_neg \<sigma> l \<and> exact_neg \<sigma> r)"
| "exact_neg \<sigma> (Disjunction l r) = (exact_neg \<sigma> l \<and> exact_neg \<sigma> r)"
| "exact_neg \<sigma> (Until l a b r) = (a = 0 \<and> exact_neg \<sigma> l \<and> exact_neg \<sigma> r)"
| "exact_neg \<sigma> (Always a b f) = exact_neg \<sigma> f"
| "exact_neg \<sigma> (Eventually a b f) = exact_neg \<sigma> f"
| "exact_neg \<sigma> (Negation f) = exact \<sigma> f"

section \<open>Concrete inputs\<close>

text \<open>The inputs at which the theorems below are instantiated.\<close>

definition B_box :: Bundle where
  "B_box = \<lparr>dir_matrix = [[1, 0], [0, 1], [1, 1]], offp = [1, 2, 3], offm = [0, 0, 0],
            t_matrix = [[0, 1], [1, 2]], constraintDirections = [], constraintOffsets = []\<rparr>"

definition B_asm :: Bundle where
  "B_asm = \<lparr>dir_matrix = [[1]], offp = [1], offm = [1], t_matrix = [[0]],
            constraintDirections = [[1]], constraintOffsets = [0]\<rparr>"

definition B_loose :: Bundle where
  "B_loose = \<lparr>dir_matrix = [[1], [2]], offp = [1, 4], offm = [0, 0], t_matrix = [[0]],
              constraintDirections = [], constraintOffsets = []\<rparr>"

text \<open>
  A finder that answers, for every direction, the first upper bound of the
  parallelotope it is given as \<open>p\<close> and zero as \<open>m\<close>; and a linear-programming client
  that answers \<open>7\<close>.
\<close>

definition first_upper_finder :: "Parallelotope \<Rightarrow> Vector \<Rightarrow> MaxCoeffType" where
  "first_upper_finder P d = \<lparr>max_p = Num (hd (upper_bound P)), max_m = Num 0\<rparr>"

definition seven :: "Polytope \<Rightarrow> Vector \<Rightarrow> real" where
  "seven P obj = 7"




text \<open>
  A synthesizer for the system with one variable \<open>x\<close> (symbol 0), one parameter \<open>\<theta>\<close>
  (symbol 1) and the dynamics \<open>x \<mapsto> \<theta> x\<close>. A set of states is the list of its points and a
  parameter polytope is a single valuation, so that every operation is exact: atom
  synthesis keeps the valuations under which the atom holds at every state, the
  transformation is the image of the states under the valuations, and the operations on
  unions are those of lists read as sets.
\<close>

definition env_of :: "real \<Rightarrow> real \<Rightarrow> nat \<Rightarrow> real" where
  "env_of x \<theta> n = (if n = 0 then x else \<theta>)"

definition scaling :: "(real list, real) Synthesizer" where
  "scaling =
     \<lparr>assumptions_size = 0,
      atom_synthesis = (\<lambda>init_set U e.
        filter (\<lambda>\<theta>. list_all (\<lambda>x. evaluate_at (env_of x \<theta>) e \<le> 0) init_set) U),
      param_transform = (\<lambda>init_set U. concat (map (\<lambda>x. map (\<lambda>\<theta>. \<theta> * x) U) init_set)),
      intersect = (\<lambda>U V. filter (\<lambda>u. u \<in> set V) U),
      unite = (\<lambda>U V. U @ V),
      union_is_empty = (\<lambda>U. U = []),
      union_simplify = (\<lambda>U. U),
      polytope_split = (\<lambda>q n. [q])\<rparr>"

definition singleton_points :: "real \<Rightarrow> real set" where
  "singleton_points q = {q}"

text \<open>The atom \<open>x - 1 \<le> 0\<close> and the formula that requires it at time 1.\<close>

definition x_le_1 :: STL where
  "x_le_1 = Atom (Sub (Sym 0) (Const 1))"

definition always_at_1 :: STL where
  "always_at_1 = Always 1 1 x_le_1"

text \<open>
  The trajectory that keeps symbol 0 at \<open>1\<close> and every other symbol at \<open>-1\<close>, the negated
  until-formula over the two atoms "symbol 0 \<open>\<le> 0\<close>" and "symbol 1 \<open>\<le> 0\<close>" with the bounds
  \<open>[1, 1]\<close>, and the same with the bounds \<open>[0, 2]\<close>.
\<close>

definition steady :: "int \<Rightarrow> nat \<Rightarrow> real" where
  "steady t n = (if n = 0 then 1 else - 1)"

definition not_until_1_1 :: STL where
  "not_until_1_1 = Negation (Until (Atom (Sym 0)) 1 1 (Atom (Sym 1)))"

definition not_until_0_2 :: STL where
  "not_until_0_2 = Negation (Until (Atom (Sym 0)) 0 2 (Atom (Sym 1)))"

section \<open>Properties of the bundle operations\<close>

lemma dot_neg: "dot (neg a) x = - dot a x"
  by (induction a x rule: dot.induct) (simp_all add: neg_def)

lemma as_polytope_constructed:
  assumes "constructed B"
  shows "as_polytope B =
           \<lparr>poly_A = dir_matrix B @ map neg (dir_matrix B), poly_b = offp B @ offm B\<rparr>"
proof -
  have lp: "length (offp B) = length (dir_matrix B)"
    and lm: "length (offm B) = length (dir_matrix B)"
    using assms by (simp_all add: constructed_def)
  have d: "map (\<lambda>i. dir_matrix B ! i) [0..<length (dir_matrix B)] = dir_matrix B"
    by (rule map_nth)
  have n: "map (\<lambda>i. neg (dir_matrix B ! i)) [0..<length (dir_matrix B)] = map neg (dir_matrix B)"
    by (rule nth_equalityI) simp_all
  have p: "map (\<lambda>i. offp B ! i) [0..<length (dir_matrix B)] = offp B"
    using map_nth [of "offp B"] lp by simp
  have m: "map (\<lambda>i. offm B ! i) [0..<length (dir_matrix B)] = offm B"
    using map_nth [of "offm B"] lm by simp
  show ?thesis
    by (simp add: as_polytope_def Bundle_size_def d n p m)
qed

lemma contains_as_polytope:
  assumes "constructed B"
  shows "contains (as_polytope B) x \<longleftrightarrow> bundle_contains B x"
proof -
  let ?D = "dir_matrix B"
  let ?n = "length ?D"
  have ne: "?D \<noteq> []" and lp: "length (offp B) = ?n" and lm: "length (offm B) = ?n"
    using assms by (simp_all add: constructed_def)
  have ap: "as_polytope B = \<lparr>poly_A = ?D @ map neg ?D, poly_b = offp B @ offm B\<rparr>"
    using assms by (rule as_polytope_constructed)
  have dim: "poly_dim (as_polytope B) = Bundle_dim B"
    using ne by (simp add: ap poly_dim_def Bundle_dim_def)
  have rows: "(\<forall>i < length (?D @ map neg ?D). dot ((?D @ map neg ?D) ! i) x \<le> (offp B @ offm B) ! i)
      \<longleftrightarrow> (\<forall>i < ?n. dot (?D ! i) x \<le> offp B ! i \<and> - dot (?D ! i) x \<le> offm B ! i)"
    (is "?L \<longleftrightarrow> ?R")
  proof
    assume L: ?L
    show ?R
    proof (intro allI impI conjI)
      fix i assume i: "i < ?n"
      from L i have "dot ((?D @ map neg ?D) ! i) x \<le> (offp B @ offm B) ! i" by simp
      with i lp show "dot (?D ! i) x \<le> offp B ! i" by (simp add: nth_append)
      from i have "?n + i < length (?D @ map neg ?D)" by simp
      with L have "dot ((?D @ map neg ?D) ! (?n + i)) x \<le> (offp B @ offm B) ! (?n + i)"
        by blast
      with i lp show "- dot (?D ! i) x \<le> offm B ! i"
        using nth_append_length_plus [of ?D "map neg ?D" i]
          nth_append_length_plus [of "offp B" "offm B" i]
        by (simp add: dot_neg)
    qed
  next
    assume R: ?R
    show ?L
    proof (intro allI impI)
      fix i assume i: "i < length (?D @ map neg ?D)"
      show "dot ((?D @ map neg ?D) ! i) x \<le> (offp B @ offm B) ! i"
      proof (cases "i < ?n")
        case True
        with R lp show ?thesis by (simp add: nth_append)
      next
        case False
        with i have j: "i - ?n < ?n" by simp
        with R have "- dot (?D ! (i - ?n)) x \<le> offm B ! (i - ?n)" by simp
        with False j lp show ?thesis by (simp add: nth_append dot_neg)
      qed
    qed
  qed
  show ?thesis
    unfolding contains_def bundle_contains_def dim
    using rows by (simp add: ap Bundle_size_def)
qed

text \<open>
  Claim C2, as the code has it: for a bundle that passed the constructor's checks, the
  conversion to a polytope yields exactly the matrix \<open>[D; -D]\<close> with right-hand side
  \<open>[offp; offm]\<close>, with no row for the assumption members, and the points of that polytope
  are the points that satisfy every pair of direction constraints of the bundle.
\<close>

theorem as_polytope_agreement:
  assumes "constructed B"
  shows "as_polytope B =
           \<lparr>poly_A = dir_matrix B @ map neg (dir_matrix B), poly_b = offp B @ offm B\<rparr> \<and>
         (\<forall>x. contains (as_polytope B) x \<longleftrightarrow> bundle_contains B x)"
  using assms as_polytope_constructed contains_as_polytope by blast

text \<open>
  Claim C2 as stated fails: on a bundle that records the assumption half-space \<open>x \<le> 0\<close>,
  the conversion does not append that row, and the point \<open>1\<close> belongs to the converted
  polytope although it violates the assumption.
\<close>

theorem as_polytope_drops_assumptions:
  "as_polytope B_asm \<noteq> as_polytope_with_assumptions B_asm \<and>
   contains (as_polytope B_asm) [1] \<and>
   \<not> contains (as_polytope_with_assumptions B_asm) [1]"
  by (simp add: as_polytope_def as_polytope_with_assumptions_def B_asm_def Bundle_size_def
      contains_def poly_dim_def neg_def less_Suc_eq all_conj_distrib)

text \<open>The agreement theorem at a one-dimensional bundle.\<close>

theorem as_polytope_agreement_witness:
  "constructed B_asm \<and>
   as_polytope B_asm = \<lparr>poly_A = [[1], [-1]], poly_b = [1, 1]\<rparr> \<and>
   contains (as_polytope B_asm) [1] = bundle_contains B_asm [1]"
proof -
  have c: "constructed B_asm"
    by (simp add: constructed_def B_asm_def Bundle_dim_def)
  note t = as_polytope_agreement [OF c]
  have a: "as_polytope B_asm = \<lparr>poly_A = [[1], [-1]], poly_b = [1, 1]\<rparr>"
    using t by (simp add: B_asm_def neg_def)
  have p: "contains (as_polytope B_asm) [1] = bundle_contains B_asm [1]"
    using t by blast
  from c a p show ?thesis by blast
qed

subsection \<open>Fetching a parallelotope\<close>

lemma getParallelotope_in_range:
  assumes "constructed B" "templates_in_range B" "i < length (t_matrix B)"
  shows "getParallelotope B i =
        Inr \<lparr>Lambda = map (\<lambda>idx. dir_matrix B ! idx) (t_matrix B ! i),
             lower_bound = map (\<lambda>idx. offm B ! idx) (t_matrix B ! i),
             upper_bound = map (\<lambda>idx. offp B ! idx) (t_matrix B ! i)\<rparr>"
proof -
  from assms(3) have row: "t_matrix B ! i \<in> set (t_matrix B)" by simp
  from assms(1) row have len: "length (t_matrix B ! i) = Bundle_dim B"
    by (auto simp: constructed_def list_all_iff)
  from assms(2) row have rng: "\<forall>idx \<in> set (t_matrix B ! i). idx < Bundle_size B"
    by (auto simp: templates_in_range_def list_all_iff)
  from assms(1) have lp: "length (offp B) = Bundle_size B" and lm: "length (offm B) = Bundle_size B"
    by (simp_all add: constructed_def Bundle_size_def)
  from rng lp lm have noex:
    "\<not> list_ex (\<lambda>idx. idx \<ge> Bundle_size B \<or> idx \<ge> length (offp B) \<or> idx \<ge> length (offm B))
         (t_matrix B ! i)"
    by (auto simp: list_ex_iff)
  from assms(3) len noex show ?thesis
    by (simp add: getParallelotope_def Let_def)
qed

text \<open>
  Claim C10: \<^verbatim>\<open>getParallelotope(i)\<close> takes its failure exit exactly when \<open>i\<close> is strictly
  greater than the number of template rows; the index equal to the number of rows passes
  the guard (and then reads past the end of the template matrix); and for a bundle that
  passed the constructor's checks and whose template entries index rows of the direction
  matrix, every \<open>i\<close> below the number of rows yields the parallelotope whose rows are the
  directions selected by template row \<open>i\<close>, with the matching \<^verbatim>\<open>offm\<close> entries as lower
  bounds and the matching \<^verbatim>\<open>offp\<close> entries as upper bounds.
\<close>

theorem getParallelotope_guard:
  "(getParallelotope B i = Inl Exit_Failure \<longleftrightarrow> i > length (t_matrix B)) \<and>
   getParallelotope B (length (t_matrix B)) \<noteq> Inl Exit_Failure \<and>
   (constructed B \<and> templates_in_range B \<and> i < length (t_matrix B) \<longrightarrow>
      getParallelotope B i =
        Inr \<lparr>Lambda = map (\<lambda>idx. dir_matrix B ! idx) (t_matrix B ! i),
             lower_bound = map (\<lambda>idx. offm B ! idx) (t_matrix B ! i),
             upper_bound = map (\<lambda>idx. offp B ! idx) (t_matrix B ! i)\<rparr>)"
proof (intro conjI impI)
  show "getParallelotope B i = Inl Exit_Failure \<longleftrightarrow> i > length (t_matrix B)"
    by (auto simp: getParallelotope_def Let_def)
next
  show "getParallelotope B (length (t_matrix B)) \<noteq> Inl Exit_Failure"
    by (simp add: getParallelotope_def)
next
  assume "constructed B \<and> templates_in_range B \<and> i < length (t_matrix B)"
  then show "getParallelotope B i =
        Inr \<lparr>Lambda = map (\<lambda>idx. dir_matrix B ! idx) (t_matrix B ! i),
             lower_bound = map (\<lambda>idx. offm B ! idx) (t_matrix B ! i),
             upper_bound = map (\<lambda>idx. offp B ! idx) (t_matrix B ! i)\<rparr>"
    by (simp add: getParallelotope_in_range)
qed

text \<open>The guard theorem at a bundle with three directions and two templates.\<close>

theorem getParallelotope_guard_witness:
  "constructed B_box \<and> templates_in_range B_box \<and> (1::nat) < length (t_matrix B_box) \<and>
   getParallelotope B_box 1 =
     Inr \<lparr>Lambda = [[0, 1], [1, 1]], lower_bound = [0, 0], upper_bound = [2, 3]\<rparr> \<and>
   getParallelotope B_box 2 = Inl Out_Of_Bounds \<and>
   getParallelotope B_box 3 = Inl Exit_Failure"
proof -
  have c: "constructed B_box"
    by (simp add: constructed_def B_box_def Bundle_dim_def)
  have r: "templates_in_range B_box"
    by (simp add: templates_in_range_def B_box_def Bundle_size_def)
  have l: "(1::nat) < length (t_matrix B_box)"
    by (simp add: B_box_def)
  have g: "getParallelotope B_box 1 =
     Inr \<lparr>Lambda = [[0, 1], [1, 1]], lower_bound = [0, 0], upper_bound = [2, 3]\<rparr>"
    using getParallelotope_guard [of B_box 1] c r l by (simp add: B_box_def)
  have b: "getParallelotope B_box 2 = Inl Out_Of_Bounds"
    by (simp add: getParallelotope_def B_box_def)
  have e: "getParallelotope B_box 3 = Inl Exit_Failure"
    using getParallelotope_guard [of B_box 3] by (simp add: B_box_def)
  from c r l g b e show ?thesis by simp
qed

subsection \<open>Canonical form\<close>

lemma is_maximum_unique: "is_maximum P obj v \<Longrightarrow> is_maximum P obj w \<Longrightarrow> v = w"
  unfolding is_maximum_def by (metis order_antisym)

lemma is_maximum_cong:
  assumes "\<And>x. contains P x \<longleftrightarrow> contains Q x"
  shows "is_maximum P obj v \<longleftrightarrow> is_maximum Q obj v"
  using assms by (simp add: is_maximum_def)

lemma new_Bundle_constructed:
  assumes "constructed B" "length p = length (dir_matrix B)" "length m = length (dir_matrix B)"
  shows "new_Bundle (dir_matrix B) p m (t_matrix B) =
           Inr \<lparr>dir_matrix = dir_matrix B, offp = p, offm = m, t_matrix = t_matrix B,
                constraintDirections = [], constraintOffsets = []\<rparr>"
proof -
  from assms(1) have ne: "dir_matrix B \<noteq> []" and t: "t_matrix B \<noteq> []"
    and rows: "list_all (\<lambda>row. length row = Bundle_dim B) (t_matrix B)"
    by (simp_all add: constructed_def)
  from ne have d: "Bundle_dim B = length (hd (dir_matrix B))"
    by (simp add: Bundle_dim_def)
  from rows d have "\<not> list_ex (\<lambda>row. length row \<noteq> length (hd (dir_matrix B))) (t_matrix B)"
    by (simp add: list_all_iff list_ex_iff)
  with ne t assms(2,3) show ?thesis
    by (simp add: new_Bundle_def)
qed

text \<open>
  Claim C3. The linear-programming client is a parameter; it is taken to be exact, and
  the bundle to have passed the constructor's checks and to have an optimum in every
  direction and its opposite (the client reports an optimum). Then \<^verbatim>\<open>get_canonical\<close>
  returns a bundle with the same direction and template matrices whose offsets are the
  maxima of \<open>D[i] x\<close> and \<open>-D[i] x\<close> over the bundle; the result contains every point of the
  bundle; and canonicalising the result returns it unchanged.
\<close>

theorem get_canonical_tightens:
  assumes lp: "lp_exact maximize" and con: "constructed B" and opt: "optimum_available B"
  shows "\<exists>C. get_canonical maximize B = Inr C \<and>
           dir_matrix C = dir_matrix B \<and> t_matrix C = t_matrix B \<and>
           (\<forall>i < Bundle_size B.
              is_maximum (as_polytope B) (dir_matrix B ! i) (offp C ! i) \<and>
              is_maximum (as_polytope B) (neg (dir_matrix B ! i)) (offm C ! i)) \<and>
           (\<forall>x. bundle_contains B x \<longrightarrow> bundle_contains C x) \<and>
           get_canonical maximize C = Inr C"
proof -
  let ?D = "dir_matrix B"
  let ?n = "Bundle_size B"
  let ?P = "as_polytope B"
  let ?p = "map (\<lambda>i. maximize ?P (?D ! i)) [0..<?n]"
  let ?m = "map (\<lambda>i. maximize ?P (neg (?D ! i))) [0..<?n]"
  let ?C = "\<lparr>dir_matrix = ?D, offp = ?p, offm = ?m, t_matrix = t_matrix B,
             constraintDirections = [], constraintOffsets = []\<rparr>"
  have n: "?n = length ?D" by (simp add: Bundle_size_def)
  have run: "get_canonical maximize B = Inr ?C"
    using new_Bundle_constructed [OF con, of ?p ?m] by (simp add: get_canonical_def Let_def n)
  have maxp: "is_maximum ?P (?D ! i) (?p ! i)" and maxm: "is_maximum ?P (neg (?D ! i)) (?m ! i)"
    if "i < ?n" for i
  proof -
    from opt that obtain v w where v: "is_maximum ?P (?D ! i) v"
      and w: "is_maximum ?P (neg (?D ! i)) w"
      unfolding optimum_available_def by blast
    from lp v have "maximize ?P (?D ! i) = v" unfolding lp_exact_def by blast
    with v that show "is_maximum ?P (?D ! i) (?p ! i)" by simp
    from lp w have "maximize ?P (neg (?D ! i)) = w" unfolding lp_exact_def by blast
    with w that show "is_maximum ?P (neg (?D ! i)) (?m ! i)" by simp
  qed
  have conC: "constructed ?C"
    using con by (auto simp: constructed_def Bundle_dim_def n)
  have sizeC: "Bundle_size ?C = ?n" and dimC: "Bundle_dim ?C = Bundle_dim B"
    by (simp_all add: Bundle_size_def Bundle_dim_def)
  have same: "bundle_contains ?C x \<longleftrightarrow> bundle_contains B x" for x
  proof
    assume inC: "bundle_contains ?C x"
    show "bundle_contains B x"
      unfolding bundle_contains_def
    proof (intro conjI allI impI)
      from inC show "length x = Bundle_dim B"
        by (simp add: bundle_contains_def dimC)
    next
      fix i assume i: "i < ?n"
      from maxp [OF i] obtain y where y: "contains ?P y" "dot (?D ! i) y = ?p ! i"
        unfolding is_maximum_def by blast
      from y(1) con have "bundle_contains B y" by (simp add: contains_as_polytope)
      with i have "dot (?D ! i) y \<le> offp B ! i" by (simp add: bundle_contains_def)
      moreover from inC i have "dot (?D ! i) x \<le> ?p ! i"
        unfolding bundle_contains_def sizeC by simp
      ultimately show "dot (?D ! i) x \<le> offp B ! i" using y(2) by linarith
    next
      fix i assume i: "i < ?n"
      from maxm [OF i] obtain y where y: "contains ?P y" "dot (neg (?D ! i)) y = ?m ! i"
        unfolding is_maximum_def by blast
      from y(1) con have "bundle_contains B y" by (simp add: contains_as_polytope)
      with i have "- dot (?D ! i) y \<le> offm B ! i" by (simp add: bundle_contains_def)
      moreover from inC i have "- dot (?D ! i) x \<le> ?m ! i"
        unfolding bundle_contains_def sizeC by simp
      ultimately show "- dot (?D ! i) x \<le> offm B ! i" using y(2) by (simp add: dot_neg)
    qed
  next
    assume inB: "bundle_contains B x"
    then have cx: "contains ?P x" using con by (simp add: contains_as_polytope)
    show "bundle_contains ?C x"
      unfolding bundle_contains_def sizeC dimC
    proof (intro conjI allI impI)
      from inB show "length x = Bundle_dim B" by (simp add: bundle_contains_def)
    next
      fix i assume i: "i < ?n"
      from maxp [OF i] cx have "dot (?D ! i) x \<le> ?p ! i"
        unfolding is_maximum_def by blast
      then show "dot (dir_matrix ?C ! i) x \<le> offp ?C ! i" by simp
    next
      fix i assume i: "i < ?n"
      from maxm [OF i] cx have "dot (neg (?D ! i)) x \<le> ?m ! i"
        unfolding is_maximum_def by blast
      then show "- dot (dir_matrix ?C ! i) x \<le> offm ?C ! i" by (simp add: dot_neg)
    qed
  qed
  have polys: "contains (as_polytope ?C) x \<longleftrightarrow> contains ?P x" for x
    using same [of x] con conC by (simp add: contains_as_polytope)
  have againp: "maximize (as_polytope ?C) (?D ! i) = ?p ! i"
    and againm: "maximize (as_polytope ?C) (neg (?D ! i)) = ?m ! i" if "i < ?n" for i
  proof -
    from maxp [OF that] have "is_maximum (as_polytope ?C) (?D ! i) (?p ! i)"
      using is_maximum_cong [of "as_polytope ?C" ?P, OF polys] by blast
    with lp show "maximize (as_polytope ?C) (?D ! i) = ?p ! i"
      unfolding lp_exact_def by blast
    from maxm [OF that] have "is_maximum (as_polytope ?C) (neg (?D ! i)) (?m ! i)"
      using is_maximum_cong [of "as_polytope ?C" ?P, OF polys] by blast
    with lp show "maximize (as_polytope ?C) (neg (?D ! i)) = ?m ! i"
      unfolding lp_exact_def by blast
  qed
  have eqp: "map (\<lambda>i. maximize (as_polytope ?C) (?D ! i)) [0..<?n] = ?p"
    by (rule nth_equalityI) (simp_all add: againp del: map_map)
  have eqm: "map (\<lambda>i. maximize (as_polytope ?C) (neg (?D ! i))) [0..<?n] = ?m"
    by (rule nth_equalityI) (simp_all add: againm)
  have "get_canonical maximize ?C =
          new_Bundle ?D (map (\<lambda>i. maximize (as_polytope ?C) (?D ! i)) [0..<?n])
            (map (\<lambda>i. maximize (as_polytope ?C) (neg (?D ! i))) [0..<?n]) (t_matrix B)"
    unfolding get_canonical_def Let_def sizeC by simp
  also have "\<dots> = new_Bundle ?D ?p ?m (t_matrix B)"
    by (simp only: eqp eqm)
  also have "\<dots> = Inr ?C"
    using new_Bundle_constructed [OF con, of ?p ?m] by (simp add: n)
  finally have idem: "get_canonical maximize ?C = Inr ?C" .
  show ?thesis
  proof (intro exI conjI)
    show "get_canonical maximize B = Inr ?C" by (rule run)
    show "dir_matrix ?C = ?D" by simp
    show "t_matrix ?C = t_matrix B" by simp
    show "\<forall>i < ?n. is_maximum ?P (?D ! i) (offp ?C ! i) \<and>
            is_maximum ?P (neg (?D ! i)) (offm ?C ! i)"
      using maxp maxm by simp
    show "\<forall>x. bundle_contains B x \<longrightarrow> bundle_contains ?C x"
      using same by blast
    show "get_canonical maximize ?C = Inr ?C" by (rule idem)
  qed
qed

lemma lp_exact_the: "lp_exact (\<lambda>P obj. THE v. is_maximum P obj v)"
  unfolding lp_exact_def
proof (intro allI impI)
  fix P obj v assume "is_maximum P obj v"
  then show "(THE w. is_maximum P obj w) = v"
    by (rule the_equality) (metis \<open>is_maximum P obj v\<close> is_maximum_unique)
qed

lemma contains_B_loose:
  "contains (as_polytope B_loose) x \<longleftrightarrow> (\<exists>a. x = [a] \<and> 0 \<le> a \<and> a \<le> 1)"
proof -
  have c: "constructed B_loose"
    by (simp add: constructed_def B_loose_def Bundle_dim_def)
  have "bundle_contains B_loose x \<longleftrightarrow> (\<exists>a. x = [a] \<and> 0 \<le> a \<and> a \<le> 1)"
  proof
    assume b: "bundle_contains B_loose x"
    then have "length x = 1"
      by (simp add: bundle_contains_def B_loose_def Bundle_dim_def)
    then obtain a where a: "x = [a]"
      by (cases x) auto
    from b a have "0 \<le> a \<and> a \<le> 1"
      by (simp add: bundle_contains_def B_loose_def Bundle_size_def less_Suc_eq all_conj_distrib)
    with a show "\<exists>a. x = [a] \<and> 0 \<le> a \<and> a \<le> 1" by blast
  next
    assume "\<exists>a. x = [a] \<and> 0 \<le> a \<and> a \<le> 1"
    then show "bundle_contains B_loose x"
      by (auto simp: bundle_contains_def B_loose_def Bundle_size_def Bundle_dim_def less_Suc_eq)
  qed
  with c show ?thesis by (simp add: contains_as_polytope)
qed

lemma maxima_B_loose:
  "is_maximum (as_polytope B_loose) [1] 1" "is_maximum (as_polytope B_loose) [2] 2"
  "is_maximum (as_polytope B_loose) [-1] 0" "is_maximum (as_polytope B_loose) [-2] 0"
proof -
  have one: "contains (as_polytope B_loose) [1]" and zero: "contains (as_polytope B_loose) [0]"
    by (simp_all add: contains_B_loose)
  show "is_maximum (as_polytope B_loose) [1] 1"
    unfolding is_maximum_def using one by (auto simp: contains_B_loose intro!: exI [of _ "[1]"])
  show "is_maximum (as_polytope B_loose) [2] 2"
    unfolding is_maximum_def using one by (auto simp: contains_B_loose intro!: exI [of _ "[1]"])
  show "is_maximum (as_polytope B_loose) [-1] 0"
    unfolding is_maximum_def using zero by (auto simp: contains_B_loose intro!: exI [of _ "[0]"])
  show "is_maximum (as_polytope B_loose) [-2] 0"
    unfolding is_maximum_def using zero by (auto simp: contains_B_loose intro!: exI [of _ "[0]"])
qed

text \<open>
  The canonicalisation theorem at a bundle over one variable with the directions \<open>x\<close> and
  \<open>2 x\<close> and the loose bound \<open>2 x \<le> 4\<close>, which is tightened to \<open>2 x \<le> 2\<close>.
\<close>

theorem get_canonical_tightens_witness:
  "lp_exact (\<lambda>P obj. THE v. is_maximum P obj v) \<and> constructed B_loose \<and>
   optimum_available B_loose \<and>
   (\<exists>C. get_canonical (\<lambda>P obj. THE v. is_maximum P obj v) B_loose = Inr C \<and>
        dir_matrix C = [[1], [2]] \<and> t_matrix C = [[0]] \<and>
        offp C ! 0 = 1 \<and> offp C ! 1 = 2 \<and> offm C ! 0 = 0 \<and> offm C ! 1 = 0 \<and>
        bundle_contains C [1] \<and>
        get_canonical (\<lambda>P obj. THE v. is_maximum P obj v) C = Inr C)"
proof -
  let ?mx = "\<lambda>P obj. THE v. is_maximum P obj v"
  have c: "constructed B_loose"
    by (simp add: constructed_def B_loose_def Bundle_dim_def)
  have o: "optimum_available B_loose"
    unfolding optimum_available_def
    using maxima_B_loose by (auto simp: B_loose_def Bundle_size_def less_Suc_eq neg_def)
  have inB: "bundle_contains B_loose [1]"
    using c contains_B_loose [of "[1]"] by (simp add: contains_as_polytope)
  from get_canonical_tightens [OF lp_exact_the c o] obtain C where
    run: "get_canonical ?mx B_loose = Inr C" and d: "dir_matrix C = dir_matrix B_loose"
    and t: "t_matrix C = t_matrix B_loose"
    and mx: "\<forall>i < Bundle_size B_loose.
              is_maximum (as_polytope B_loose) (dir_matrix B_loose ! i) (offp C ! i) \<and>
              is_maximum (as_polytope B_loose) (neg (dir_matrix B_loose ! i)) (offm C ! i)"
    and sub: "\<forall>x. bundle_contains B_loose x \<longrightarrow> bundle_contains C x"
    and idem: "get_canonical ?mx C = Inr C"
    by blast
  have s: "(0::nat) < Bundle_size B_loose" "(1::nat) < Bundle_size B_loose"
    and r: "dir_matrix B_loose ! 0 = [1]" "dir_matrix B_loose ! 1 = [2]"
      "neg [1] = [-1]" "neg [2] = [-2]"
    by (simp_all add: B_loose_def Bundle_size_def neg_def)
  from mx s(1) have "is_maximum (as_polytope B_loose) (dir_matrix B_loose ! 0) (offp C ! 0) \<and>
      is_maximum (as_polytope B_loose) (neg (dir_matrix B_loose ! 0)) (offm C ! 0)"
    by blast
  then have m0: "is_maximum (as_polytope B_loose) [1] (offp C ! 0)"
    and m2: "is_maximum (as_polytope B_loose) [-1] (offm C ! 0)"
    by (simp_all only: r)
  from mx s(2) have "is_maximum (as_polytope B_loose) (dir_matrix B_loose ! 1) (offp C ! 1) \<and>
      is_maximum (as_polytope B_loose) (neg (dir_matrix B_loose ! 1)) (offm C ! 1)"
    by blast
  then have m1: "is_maximum (as_polytope B_loose) [2] (offp C ! 1)"
    and m3: "is_maximum (as_polytope B_loose) [-2] (offm C ! 1)"
    by (simp_all only: r)
  have v: "offp C ! 0 = 1" "offp C ! 1 = 2" "offm C ! 0 = 0" "offm C ! 1 = 0"
    using m0 m1 m2 m3 maxima_B_loose is_maximum_unique by blast+
  from sub inB have inC: "bundle_contains C [1]" by blast
  from d t have dt: "dir_matrix C = [[1], [2]]" "t_matrix C = [[0]]"
    by (simp_all add: B_loose_def)
  from lp_exact_the c o run dt v inC idem show ?thesis by blast
qed

section \<open>Properties of the coefficient finder\<close>

lemma coeff_eval_m_val: "val (coeff_eval_m evaluate c) = - val (evaluate c)"
  by (cases "evaluate c") (simp_all add: coeff_eval_m_def Let_def)

lemma coeff_eval_m_not_neg_zero: "coeff_eval_m evaluate c \<noteq> Neg_Zero"
  by (cases "evaluate c") (simp_all add: coeff_eval_m_def Let_def)

lemma Max_insert_max:
  fixes a :: real
  assumes "finite A"
  shows "Max (insert (max a b) A) = Max (insert a (insert b A))"
proof (cases "A = {}")
  case True
  then show ?thesis by (simp add: max.commute)
next
  case False
  with assms show ?thesis by (simp add: max.assoc)
qed

lemma fold_max_step_p:
  "val (fst (fold (max_step evaluate) cs acc)) =
     Max (insert (val (fst acc)) ((\<lambda>c. val (evaluate c)) ` set cs))"
proof (induction cs arbitrary: acc)
  case Nil
  then show ?case by simp
next
  case (Cons c cs)
  have "val (fst (max_step evaluate c acc)) = max (val (fst acc)) (val (evaluate c))"
    by (simp add: max_step_def Let_def coeff_eval_p_def max_def)
  then show ?case
    using Cons.IH [of "max_step evaluate c acc"]
    by (simp add: Max_insert_max del: Max_insert)
qed

lemma fold_max_step_m:
  "val (snd (fold (max_step evaluate) cs acc)) =
     Max (insert (val (snd acc)) ((\<lambda>c. - val (evaluate c)) ` set cs))"
proof (induction cs arbitrary: acc)
  case Nil
  then show ?case by simp
next
  case (Cons c cs)
  have "val (snd (max_step evaluate c acc)) = max (val (snd acc)) (- val (evaluate c))"
    by (simp add: max_step_def Let_def coeff_eval_m_val max_def)
  then show ?case
    using Cons.IH [of "max_step evaluate c acc"]
    by (simp add: Max_insert_max del: Max_insert)
qed

lemma fold_max_step_m_origin:
  "snd (fold (max_step evaluate) cs acc) \<in> insert (snd acc) (coeff_eval_m evaluate ` set cs)"
proof (induction cs arbitrary: acc)
  case Nil
  then show ?case by simp
next
  case (Cons c cs)
  have "snd (max_step evaluate c acc) \<in> {snd acc, coeff_eval_m evaluate c}"
    by (simp add: max_step_def Let_def)
  then show ?case
    using Cons.IH [of "max_step evaluate c acc"] by auto
qed

text \<open>
  Claim C9: on a non-empty list of constant coefficients the plain finder returns, as
  \<open>p\<close>, the maximum of the coefficients' values and, as \<open>m\<close>, the maximum of their negated
  values; a coefficient whose value is zero contributes the positive zero to \<open>m\<close>, and
  neither a contribution nor \<open>m\<close> itself is ever the negative zero.
\<close>

theorem find_max_coeffs_maxima:
  assumes "b_coeffs \<noteq> []"
  shows "\<exists>r. find_max_coeffs evaluate b_coeffs = Inr r \<and>
           val (max_p r) = Max ((\<lambda>c. val (evaluate c)) ` set b_coeffs) \<and>
           val (max_m r) = Max ((\<lambda>c. - val (evaluate c)) ` set b_coeffs) \<and>
           (\<forall>c \<in> set b_coeffs. val (evaluate c) = 0 \<longrightarrow> coeff_eval_m evaluate c = Num 0) \<and>
           (\<forall>c \<in> set b_coeffs. coeff_eval_m evaluate c \<noteq> Neg_Zero) \<and>
           max_m r \<noteq> Neg_Zero"
proof -
  from assms obtain c cs where b: "b_coeffs = c # cs" by (cases b_coeffs) auto
  let ?r = "fold (max_step evaluate) cs (coeff_eval_p evaluate c, coeff_eval_m evaluate c)"
  have run: "find_max_coeffs evaluate b_coeffs = Inr \<lparr>max_p = fst ?r, max_m = snd ?r\<rparr>"
    by (simp add: find_max_coeffs_def b Let_def)
  have p: "val (fst ?r) = Max ((\<lambda>c. val (evaluate c)) ` set b_coeffs)"
    using fold_max_step_p [of evaluate cs "(coeff_eval_p evaluate c, coeff_eval_m evaluate c)"]
    by (simp add: b coeff_eval_p_def)
  have m: "val (snd ?r) = Max ((\<lambda>c. - val (evaluate c)) ` set b_coeffs)"
    using fold_max_step_m [of evaluate cs "(coeff_eval_p evaluate c, coeff_eval_m evaluate c)"]
    by (simp add: b coeff_eval_m_val)
  have z: "\<forall>c \<in> set b_coeffs. val (evaluate c) = 0 \<longrightarrow> coeff_eval_m evaluate c = Num 0"
    by (simp add: coeff_eval_m_def Let_def)
  have nz: "\<forall>c \<in> set b_coeffs. coeff_eval_m evaluate c \<noteq> Neg_Zero"
    by (simp add: coeff_eval_m_not_neg_zero)
  have "snd ?r \<in> insert (coeff_eval_m evaluate c) (coeff_eval_m evaluate ` set cs)"
    using fold_max_step_m_origin [of evaluate cs "(coeff_eval_p evaluate c, coeff_eval_m evaluate c)"]
    by simp
  then have r: "snd ?r \<noteq> Neg_Zero"
    using coeff_eval_m_not_neg_zero by (metis imageE insertE)
  from run p m z nz r show ?thesis by simp
qed

text \<open>
  The finder on the coefficients \<open>-0\<close>, \<open>-2\<close> and \<open>+0\<close>: \<open>p\<close> is the first zero met (here the
  negative one, since no later value is strictly greater), \<open>m\<close> is \<open>2\<close>; on the single
  coefficient \<open>-0\<close>, \<open>m\<close> is the positive zero.
\<close>

theorem find_max_coeffs_maxima_witness:
  "[Neg_Zero, Num (-2), Num 0] \<noteq> [] \<and>
   find_max_coeffs (\<lambda>c. c) [Neg_Zero, Num (-2), Num 0] = Inr \<lparr>max_p = Neg_Zero, max_m = Num 2\<rparr> \<and>
   find_max_coeffs (\<lambda>c. c) [Neg_Zero] = Inr \<lparr>max_p = Neg_Zero, max_m = Num 0\<rparr> \<and>
   (\<exists>r. find_max_coeffs (\<lambda>c. c) [Neg_Zero, Num (-2), Num 0] = Inr r \<and>
        val (max_p r) = 0 \<and> val (max_m r) = 2 \<and> max_m r \<noteq> Neg_Zero)"
proof -
  have ne: "[Neg_Zero, Num (-2), Num 0] \<noteq> []" by simp
  have a: "find_max_coeffs (\<lambda>c. c) [Neg_Zero, Num (-2), Num 0] =
             Inr \<lparr>max_p = Neg_Zero, max_m = Num 2\<rparr>"
    by (simp add: find_max_coeffs_def max_step_def coeff_eval_p_def coeff_eval_m_def Let_def)
  have b: "find_max_coeffs (\<lambda>c. c) [Neg_Zero] = Inr \<lparr>max_p = Neg_Zero, max_m = Num 0\<rparr>"
    by (simp add: find_max_coeffs_def max_step_def coeff_eval_p_def coeff_eval_m_def Let_def)
  from find_max_coeffs_maxima [OF ne, of "\<lambda>c. c"]
  have "\<exists>r. find_max_coeffs (\<lambda>c. c) [Neg_Zero, Num (-2), Num 0] = Inr r \<and>
        val (max_p r) = 0 \<and> val (max_m r) = 2 \<and> max_m r \<noteq> Neg_Zero"
    by auto
  with ne a b show ?thesis by blast
qed

section \<open>Properties of the one-step image\<close>

lemma DBL_MAX_large: "DBL_MAX > 7"
  by (simp add: DBL_MAX_def)

lemma update_min: "update stored v = min stored v"
  by (simp add: update_def min_def)

lemma Min_insert_min:
  "finite S \<Longrightarrow> Min (insert (min a b) S) = Min (insert a (insert b S))"
  by (cases "S = {}") (simp_all add: min.assoc)

lemma fold_bound_dir:
  assumes "\<forall>j \<in> set js. g j < length (fst c)" and "length (snd c) = length (fst c)"
  shows "length (fst (fold (\<lambda>j. bound_dir mf B P (g j)) js c)) = length (fst c) \<and>
         length (snd (fold (\<lambda>j. bound_dir mf B P (g j)) js c)) = length (fst c) \<and>
         (\<forall>d. fst (fold (\<lambda>j. bound_dir mf B P (g j)) js c) ! d =
                (if d \<in> g ` set js then min (fst c ! d) (val (max_p (mf P (dir_matrix B ! d))))
                 else fst c ! d) \<and>
              snd (fold (\<lambda>j. bound_dir mf B P (g j)) js c) ! d =
                (if d \<in> g ` set js then min (snd c ! d) (val (max_m (mf P (dir_matrix B ! d))))
                 else snd c ! d))"
  using assms
proof (induction js arbitrary: c)
  case Nil
  then show ?case by simp
next
  case (Cons j js)
  let ?c1 = "bound_dir mf B P (g j) c"
  from Cons.prems have j: "g j < length (fst c)" "g j < length (snd c)" by simp_all
  have l1: "length (fst ?c1) = length (fst c)" "length (snd ?c1) = length (fst c)"
    using Cons.prems(2) by (simp_all add: bound_dir_def Let_def)
  have v1: "fst ?c1 ! d =
      (if d = g j then min (fst c ! d) (val (max_p (mf P (dir_matrix B ! d)))) else fst c ! d)"
    "snd ?c1 ! d =
      (if d = g j then min (snd c ! d) (val (max_m (mf P (dir_matrix B ! d)))) else snd c ! d)"
    for d
    using j by (simp_all add: bound_dir_def Let_def update_min)
  from Cons.prems l1 have p1: "\<forall>j \<in> set js. g j < length (fst ?c1)"
    "length (snd ?c1) = length (fst ?c1)" by simp_all
  from Cons.IH [OF p1] l1 v1 show ?case
    by (simp add: min.assoc)
qed

lemma minimizeCoeffs_result:
  assumes con: "constructed B" and rng: "templates_in_range B"
    and i: "i < length (t_matrix B)"
    and len: "length (fst c) = Bundle_size B" "length (snd c) = Bundle_size B"
  shows "\<exists>c'. minimizeCoeffs mf mode B i c = Inr c' \<and>
           length (fst c') = Bundle_size B \<and> length (snd c') = Bundle_size B \<and>
           (\<forall>d < Bundle_size B.
              fst c' ! d = (if mode \<noteq> 0 \<or> d \<in> set (t_matrix B ! i)
                            then min (fst c ! d) (bound_p mf B i d) else fst c ! d) \<and>
              snd c' ! d = (if mode \<noteq> 0 \<or> d \<in> set (t_matrix B ! i)
                            then min (snd c ! d) (bound_m mf B i d) else snd c ! d))"
proof -
  let ?row = "t_matrix B ! i"
  let ?P = "template_parallelotope B i"
  from i have row: "?row \<in> set (t_matrix B)" by simp
  with rng have inr: "\<forall>idx \<in> set ?row. idx < length (dir_matrix B)"
    by (simp add: templates_in_range_def list_all_iff Bundle_size_def)
  then have noex: "\<not> list_ex (\<lambda>idx. idx \<ge> length (dir_matrix B)) ?row"
    by (simp add: list_ex_iff) (meson not_le)
  have par: "getParallelotope B i = Inr ?P"
    by (simp add: getParallelotope_in_range [OF con rng i] template_parallelotope_def)
  show ?thesis
  proof (cases "mode = 0")
    case True
    let ?r = "fold (\<lambda>j. bound_dir mf B ?P (?row ! j)) [0..<length ?row] c"
    from True noex par have run: "minimizeCoeffs mf mode B i c = Inr ?r"
      by (simp add: minimizeCoeffs_def Let_def)
    have img: "(\<lambda>j. ?row ! j) ` set [0..<length ?row] = set ?row"
      by (simp add: set_conv_nth [of ?row] image_def) (metis atLeastLessThan_iff zero_le)
    from inr len have pre: "\<forall>j \<in> set [0..<length ?row]. ?row ! j < length (fst c)"
      by (simp add: Bundle_size_def)
    from len have pre2: "length (snd c) = length (fst c)" by simp
    from fold_bound_dir [OF pre pre2, of mf B ?P] img len True run show ?thesis
      by (simp add: bound_p_def bound_m_def)
  next
    case False
    let ?r = "fold (\<lambda>j. bound_dir mf B ?P j) [0..<length (dir_matrix B)] c"
    from False par have run: "minimizeCoeffs mf mode B i c = Inr ?r"
      by (simp add: minimizeCoeffs_def Let_def)
    from len have pre: "\<forall>j \<in> set [0..<length (dir_matrix B)]. j < length (fst c)"
      by (simp add: Bundle_size_def)
    from len have pre2: "length (snd c) = length (fst c)" by simp
    from fold_bound_dir [OF pre pre2, of mf B ?P] len False run show ?thesis
      by (simp add: bound_p_def bound_m_def Bundle_size_def)
  qed
qed

lemma foldE_minimizeCoeffs_result:
  assumes con: "constructed B" and rng: "templates_in_range B"
    and ts: "\<forall>i \<in> set ts. i < length (t_matrix B)"
    and len: "length (fst c) = Bundle_size B" "length (snd c) = Bundle_size B"
  shows "\<exists>c'. foldE (minimizeCoeffs mf mode B) ts c = Inr c' \<and>
           length (fst c') = Bundle_size B \<and> length (snd c') = Bundle_size B \<and>
           (\<forall>d < Bundle_size B.
              fst c' ! d = Min (insert (fst c ! d) ((\<lambda>i. bound_p mf B i d) `
                             {i \<in> set ts. mode \<noteq> 0 \<or> d \<in> set (t_matrix B ! i)})) \<and>
              snd c' ! d = Min (insert (snd c ! d) ((\<lambda>i. bound_m mf B i d) `
                             {i \<in> set ts. mode \<noteq> 0 \<or> d \<in> set (t_matrix B ! i)})))"
  using ts len
proof (induction ts arbitrary: c)
  case Nil
  then show ?case by simp
next
  case (Cons i ts)
  from Cons.prems have i: "i < length (t_matrix B)"
    and rest: "\<forall>i \<in> set ts. i < length (t_matrix B)" by simp_all
  from minimizeCoeffs_result [OF con rng i Cons.prems(2,3), of mf mode] obtain c1 where
    c1: "minimizeCoeffs mf mode B i c = Inr c1"
      "length (fst c1) = Bundle_size B" "length (snd c1) = Bundle_size B"
    and v1: "\<forall>d < Bundle_size B.
        fst c1 ! d = (if mode \<noteq> 0 \<or> d \<in> set (t_matrix B ! i)
                      then min (fst c ! d) (bound_p mf B i d) else fst c ! d) \<and>
        snd c1 ! d = (if mode \<noteq> 0 \<or> d \<in> set (t_matrix B ! i)
                      then min (snd c ! d) (bound_m mf B i d) else snd c ! d)"
    by blast
  from Cons.IH [OF rest c1(2,3)] obtain c' where
    c': "foldE (minimizeCoeffs mf mode B) ts c1 = Inr c'"
      "length (fst c') = Bundle_size B" "length (snd c') = Bundle_size B"
    and v': "\<forall>d < Bundle_size B.
        fst c' ! d = Min (insert (fst c1 ! d) ((\<lambda>i. bound_p mf B i d) `
                       {i \<in> set ts. mode \<noteq> 0 \<or> d \<in> set (t_matrix B ! i)})) \<and>
        snd c' ! d = Min (insert (snd c1 ! d) ((\<lambda>i. bound_m mf B i d) `
                       {i \<in> set ts. mode \<noteq> 0 \<or> d \<in> set (t_matrix B ! i)}))"
    by blast
  have run: "foldE (minimizeCoeffs mf mode B) (i # ts) c = Inr c'"
    by (simp add: c1(1) c'(1))
  have vals: "fst c' ! d = Min (insert (fst c ! d) ((\<lambda>i. bound_p mf B i d) `
                 {k \<in> set (i # ts). mode \<noteq> 0 \<or> d \<in> set (t_matrix B ! k)})) \<and>
              snd c' ! d = Min (insert (snd c ! d) ((\<lambda>i. bound_m mf B i d) `
                 {k \<in> set (i # ts). mode \<noteq> 0 \<or> d \<in> set (t_matrix B ! k)}))"
    if d: "d < Bundle_size B" for d
  proof (cases "mode \<noteq> 0 \<or> d \<in> set (t_matrix B ! i)")
    case True
    let ?S = "{k \<in> set ts. mode \<noteq> 0 \<or> d \<in> set (t_matrix B ! k)}"
    from True have s: "{k \<in> set (i # ts). mode \<noteq> 0 \<or> d \<in> set (t_matrix B ! k)} = insert i ?S"
      by auto
    have fin: "finite ((\<lambda>i. bound_p mf B i d) ` ?S)" "finite ((\<lambda>i. bound_m mf B i d) ` ?S)"
      by simp_all
    from v1 d True have e: "fst c1 ! d = min (fst c ! d) (bound_p mf B i d)"
      "snd c1 ! d = min (snd c ! d) (bound_m mf B i d)" by simp_all
    from v' d have "fst c' ! d = Min (insert (fst c1 ! d) ((\<lambda>i. bound_p mf B i d) ` ?S))"
      "snd c' ! d = Min (insert (snd c1 ! d) ((\<lambda>i. bound_m mf B i d) ` ?S))" by simp_all
    then show ?thesis
      unfolding s e image_insert
      by (simp only: Min_insert_min [OF fin(1)] Min_insert_min [OF fin(2)])
  next
    case False
    then have s: "{k \<in> set (i # ts). mode \<noteq> 0 \<or> d \<in> set (t_matrix B ! k)} =
                  {k \<in> set ts. mode \<noteq> 0 \<or> d \<in> set (t_matrix B ! k)}"
      by auto
    from v1 d False have e: "fst c1 ! d = fst c ! d" "snd c1 ! d = snd c ! d" by simp_all
    from v' d e show ?thesis unfolding s by simp
  qed
  from run c'(2,3) vals show ?case by blast
qed

lemma bound_offsets_result:
  assumes con: "constructed B" and rng: "templates_in_range B"
  shows "\<exists>p m. bound_offsets mf mode B = Inr (p, m) \<and>
           length p = Bundle_size B \<and> length m = Bundle_size B \<and>
           (\<forall>d < Bundle_size B.
              p ! d = Min (insert DBL_MAX ((\<lambda>i. bound_p mf B i d) `
                        {i. i < num_of_templates B \<and> (mode \<noteq> 0 \<or> d \<in> set (t_matrix B ! i))})) \<and>
              m ! d = Min (insert DBL_MAX ((\<lambda>i. bound_m mf B i d) `
                        {i. i < num_of_templates B \<and> (mode \<noteq> 0 \<or> d \<in> set (t_matrix B ! i))})))"
proof -
  let ?c = "(replicate (Bundle_size B) DBL_MAX, replicate (Bundle_size B) DBL_MAX)"
  have ts: "\<forall>i \<in> set [0..<num_of_templates B]. i < length (t_matrix B)"
    by (simp add: num_of_templates_def)
  have s: "{i \<in> set [0..<num_of_templates B]. mode \<noteq> 0 \<or> d \<in> set (t_matrix B ! i)} =
           {i. i < num_of_templates B \<and> (mode \<noteq> 0 \<or> d \<in> set (t_matrix B ! i))}" for d
    by auto
  from foldE_minimizeCoeffs_result [OF con rng ts, of ?c mf mode]
  obtain c' where c': "foldE (minimizeCoeffs mf mode B) [0..<num_of_templates B] ?c = Inr c'"
      "length (fst c') = Bundle_size B" "length (snd c') = Bundle_size B"
    and v: "\<forall>d < Bundle_size B.
        fst c' ! d = Min (insert (fst ?c ! d) ((\<lambda>i. bound_p mf B i d) `
                       {i \<in> set [0..<num_of_templates B]. mode \<noteq> 0 \<or> d \<in> set (t_matrix B ! i)})) \<and>
        snd c' ! d = Min (insert (snd ?c ! d) ((\<lambda>i. bound_m mf B i d) `
                       {i \<in> set [0..<num_of_templates B]. mode \<noteq> 0 \<or> d \<in> set (t_matrix B ! i)}))"
    by auto
  from c'(1) have "bound_offsets mf mode B = Inr (fst c', snd c')"
    by (simp add: bound_offsets_def)
  moreover from v have "\<forall>d < Bundle_size B.
      fst c' ! d = Min (insert DBL_MAX ((\<lambda>i. bound_p mf B i d) `
                     {i. i < num_of_templates B \<and> (mode \<noteq> 0 \<or> d \<in> set (t_matrix B ! i))})) \<and>
      snd c' ! d = Min (insert DBL_MAX ((\<lambda>i. bound_m mf B i d) `
                     {i. i < num_of_templates B \<and> (mode \<noteq> 0 \<or> d \<in> set (t_matrix B ! i))}))"
    unfolding s by simp
  ultimately show ?thesis using c'(2,3) by blast
qed

lemma get_canonical_constructed:
  assumes "constructed B"
  shows "\<exists>R. get_canonical maximize B = Inr R \<and> dir_matrix R = dir_matrix B \<and>
             t_matrix R = t_matrix B"
  using new_Bundle_constructed [OF assms,
      of "map (\<lambda>i. maximize (as_polytope B) (dir_matrix B ! i)) [0..<Bundle_size B]"
         "map (\<lambda>i. maximize (as_polytope B) (neg (dir_matrix B ! i))) [0..<Bundle_size B]"]
  by (simp add: get_canonical_def Let_def Bundle_size_def)

text \<open>
  Claim C1. For a bundle that passed the constructor's checks and whose template entries
  are row indices of the direction matrix, and for every finder and linear-programming
  client:
  \<^item> in mode \<^verbatim>\<open>AFO\<close> the loop bounds every direction over every template (each offset is
    the least of the finder's bounds over all templates, starting from \<^verbatim>\<open>DBL_MAX\<close>), and
    the bundle returned is built from these offsets as they are, without
    canonicalisation;
  \<^item> in mode \<^verbatim>\<open>OFO\<close> the loop bounds a direction only over the templates that contain
    it, and the bundle built from these offsets is canonicalised before it is returned;
  \<^item> in both modes the bundle returned has the direction matrix and the template matrix
    of the input.
\<close>

theorem transform_modes:
  assumes con: "constructed B" and rng: "templates_in_range B"
  shows "(\<exists>p m. bound_offsets max_finder AFO B = Inr (p, m) \<and>
            length p = Bundle_size B \<and> length m = Bundle_size B \<and>
            (\<forall>d < Bundle_size B.
               p ! d = Min (insert DBL_MAX ((\<lambda>i. bound_p max_finder B i d) `
                         {i. i < num_of_templates B})) \<and>
               m ! d = Min (insert DBL_MAX ((\<lambda>i. bound_m max_finder B i d) `
                         {i. i < num_of_templates B}))) \<and>
            transform max_finder maximize AFO B =
              Inr \<lparr>dir_matrix = dir_matrix B, offp = p, offm = m, t_matrix = t_matrix B,
                   constraintDirections = [], constraintOffsets = []\<rparr>) \<and>
         (\<exists>p m R. bound_offsets max_finder OFO B = Inr (p, m) \<and>
            length p = Bundle_size B \<and> length m = Bundle_size B \<and>
            (\<forall>d < Bundle_size B.
               p ! d = Min (insert DBL_MAX ((\<lambda>i. bound_p max_finder B i d) `
                         {i. i < num_of_templates B \<and> d \<in> set (t_matrix B ! i)})) \<and>
               m ! d = Min (insert DBL_MAX ((\<lambda>i. bound_m max_finder B i d) `
                         {i. i < num_of_templates B \<and> d \<in> set (t_matrix B ! i)}))) \<and>
            transform max_finder maximize OFO B = Inr R \<and>
            get_canonical maximize
              \<lparr>dir_matrix = dir_matrix B, offp = p, offm = m, t_matrix = t_matrix B,
                 constraintDirections = [], constraintOffsets = []\<rparr> = Inr R \<and>
            dir_matrix R = dir_matrix B \<and> t_matrix R = t_matrix B)"
proof (rule conjI)
  from bound_offsets_result [OF con rng, of max_finder AFO] obtain p m where
    b: "bound_offsets max_finder AFO B = Inr (p, m)"
    and l: "length p = Bundle_size B" "length m = Bundle_size B"
    and v: "\<forall>d < Bundle_size B.
        p ! d = Min (insert DBL_MAX ((\<lambda>i. bound_p max_finder B i d) `
                  {i. i < num_of_templates B \<and> (AFO \<noteq> 0 \<or> d \<in> set (t_matrix B ! i))})) \<and>
        m ! d = Min (insert DBL_MAX ((\<lambda>i. bound_m max_finder B i d) `
                  {i. i < num_of_templates B \<and> (AFO \<noteq> 0 \<or> d \<in> set (t_matrix B ! i))}))"
    by blast
  have nz: "AFO \<noteq> 0" by (simp add: AFO_def)
  from v nz have v': "\<forall>d < Bundle_size B.
        p ! d = Min (insert DBL_MAX ((\<lambda>i. bound_p max_finder B i d) `
                  {i. i < num_of_templates B})) \<and>
        m ! d = Min (insert DBL_MAX ((\<lambda>i. bound_m max_finder B i d) `
                  {i. i < num_of_templates B}))"
    by simp
  from new_Bundle_constructed [OF con, of p m] l
  have nb: "new_Bundle (dir_matrix B) p m (t_matrix B) =
      Inr \<lparr>dir_matrix = dir_matrix B, offp = p, offm = m, t_matrix = t_matrix B,
           constraintDirections = [], constraintOffsets = []\<rparr>"
    by (simp add: Bundle_size_def)
  from b nb nz have "transform max_finder maximize AFO B =
      Inr \<lparr>dir_matrix = dir_matrix B, offp = p, offm = m, t_matrix = t_matrix B,
           constraintDirections = [], constraintOffsets = []\<rparr>"
    by (simp add: transform_def)
  with b l v' show "\<exists>p m. bound_offsets max_finder AFO B = Inr (p, m) \<and>
            length p = Bundle_size B \<and> length m = Bundle_size B \<and>
            (\<forall>d < Bundle_size B.
               p ! d = Min (insert DBL_MAX ((\<lambda>i. bound_p max_finder B i d) `
                         {i. i < num_of_templates B})) \<and>
               m ! d = Min (insert DBL_MAX ((\<lambda>i. bound_m max_finder B i d) `
                         {i. i < num_of_templates B}))) \<and>
            transform max_finder maximize AFO B =
              Inr \<lparr>dir_matrix = dir_matrix B, offp = p, offm = m, t_matrix = t_matrix B,
                   constraintDirections = [], constraintOffsets = []\<rparr>"
    by blast
next
  from bound_offsets_result [OF con rng, of max_finder OFO] obtain p m where
    b: "bound_offsets max_finder OFO B = Inr (p, m)"
    and l: "length p = Bundle_size B" "length m = Bundle_size B"
    and v: "\<forall>d < Bundle_size B.
        p ! d = Min (insert DBL_MAX ((\<lambda>i. bound_p max_finder B i d) `
                  {i. i < num_of_templates B \<and> (OFO \<noteq> 0 \<or> d \<in> set (t_matrix B ! i))})) \<and>
        m ! d = Min (insert DBL_MAX ((\<lambda>i. bound_m max_finder B i d) `
                  {i. i < num_of_templates B \<and> (OFO \<noteq> 0 \<or> d \<in> set (t_matrix B ! i))}))"
    by blast
  have z: "OFO = 0" by (simp add: OFO_def)
  from v z have v': "\<forall>d < Bundle_size B.
        p ! d = Min (insert DBL_MAX ((\<lambda>i. bound_p max_finder B i d) `
                  {i. i < num_of_templates B \<and> d \<in> set (t_matrix B ! i)})) \<and>
        m ! d = Min (insert DBL_MAX ((\<lambda>i. bound_m max_finder B i d) `
                  {i. i < num_of_templates B \<and> d \<in> set (t_matrix B ! i)}))"
    by simp
  let ?res = "\<lparr>dir_matrix = dir_matrix B, offp = p, offm = m, t_matrix = t_matrix B,
                constraintDirections = [], constraintOffsets = []\<rparr>"
  from new_Bundle_constructed [OF con, of p m] l
  have nb: "new_Bundle (dir_matrix B) p m (t_matrix B) = Inr ?res"
    by (simp add: Bundle_size_def)
  from con l have "constructed ?res"
    by (auto simp: constructed_def Bundle_dim_def Bundle_size_def)
  from get_canonical_constructed [OF this, of maximize] obtain R where
    R: "get_canonical maximize ?res = Inr R" "dir_matrix R = dir_matrix B"
      "t_matrix R = t_matrix B"
    by auto
  from b nb z R(1) have "transform max_finder maximize OFO B = Inr R"
    by (simp add: transform_def)
  with b l v' R show "\<exists>p m R. bound_offsets max_finder OFO B = Inr (p, m) \<and>
            length p = Bundle_size B \<and> length m = Bundle_size B \<and>
            (\<forall>d < Bundle_size B.
               p ! d = Min (insert DBL_MAX ((\<lambda>i. bound_p max_finder B i d) `
                         {i. i < num_of_templates B \<and> d \<in> set (t_matrix B ! i)})) \<and>
               m ! d = Min (insert DBL_MAX ((\<lambda>i. bound_m max_finder B i d) `
                         {i. i < num_of_templates B \<and> d \<in> set (t_matrix B ! i)}))) \<and>
            transform max_finder maximize OFO B = Inr R \<and>
            get_canonical maximize
              \<lparr>dir_matrix = dir_matrix B, offp = p, offm = m, t_matrix = t_matrix B,
                 constraintDirections = [], constraintOffsets = []\<rparr> = Inr R \<and>
            dir_matrix R = dir_matrix B \<and> t_matrix R = t_matrix B"
    by blast
qed

text \<open>
  The same at the bundle with the directions \<open>x\<close>, \<open>y\<close> and \<open>x + y\<close>, the upper offsets
  \<open>1\<close>, \<open>2\<close>, \<open>3\<close> and the templates \<open>(x, y)\<close> and \<open>(y, x + y)\<close>, with the finder that answers
  the first upper bound of the parallelotope (\<open>1\<close> on the first template, \<open>2\<close> on the
  second) and a linear-programming client that answers \<open>7\<close>. In mode \<^verbatim>\<open>AFO\<close> every
  direction gets the least bound over both templates and the offsets are returned as
  they are; in mode \<^verbatim>\<open>OFO\<close> the direction \<open>x + y\<close>, which only the second template
  contains, gets the bound \<open>2\<close>, and the offsets returned are the client's.
\<close>

theorem transform_modes_witness:
  "constructed B_box \<and> templates_in_range B_box \<and>
   bound_offsets first_upper_finder AFO B_box = Inr ([1, 1, 1], [0, 0, 0]) \<and>
   transform first_upper_finder seven AFO B_box =
     Inr \<lparr>dir_matrix = [[1, 0], [0, 1], [1, 1]], offp = [1, 1, 1], offm = [0, 0, 0],
          t_matrix = [[0, 1], [1, 2]], constraintDirections = [], constraintOffsets = []\<rparr> \<and>
   bound_offsets first_upper_finder OFO B_box = Inr ([1, 1, 2], [0, 0, 0]) \<and>
   transform first_upper_finder seven OFO B_box =
     Inr \<lparr>dir_matrix = [[1, 0], [0, 1], [1, 1]], offp = [7, 7, 7], offm = [7, 7, 7],
          t_matrix = [[0, 1], [1, 2]], constraintDirections = [], constraintOffsets = []\<rparr>"
proof -
  have big: "DBL_MAX > 1" "DBL_MAX > 2" "DBL_MAX > 0"
    using DBL_MAX_large by simp_all
  have upd: "update DBL_MAX 1 = 1" "update DBL_MAX 2 = 2" "update DBL_MAX 0 = 0"
    "update 1 1 = 1" "update 1 2 = 1" "update 0 0 = 0"
    using big by (simp_all add: update_def)
  have upts: "[0..<2] = [0, 1]" "[0..<3] = [0, 1, 2]"
    by (simp_all add: upt_rec)
  have facts: "num_of_templates B_box = 2" "Bundle_size B_box = 3" "Bundle_dim B_box = 2"
    "t_matrix B_box ! 0 = [0, 1]" "t_matrix B_box ! Suc 0 = [1, 2]"
    "length (dir_matrix B_box) = 3"
    by (simp_all add: B_box_def num_of_templates_def Bundle_size_def Bundle_dim_def)
  have sel: "dir_matrix B_box = [[1, 0], [0, 1], [1, 1]]" "t_matrix B_box = [[0, 1], [1, 2]]"
    by (simp_all add: B_box_def)
  have par0: "getParallelotope B_box 0 =
      Inr \<lparr>Lambda = [[1, 0], [0, 1]], lower_bound = [0, 0], upper_bound = [1, 2]\<rparr>"
    by (simp add: getParallelotope_def B_box_def Bundle_dim_def Bundle_size_def)
  have par1: "getParallelotope B_box (Suc 0) =
      Inr \<lparr>Lambda = [[0, 1], [1, 1]], lower_bound = [0, 0], upper_bound = [2, 3]\<rparr>"
    by (simp add: getParallelotope_def B_box_def Bundle_dim_def Bundle_size_def)
  have c: "constructed B_box"
    by (simp add: constructed_def B_box_def Bundle_dim_def)
  have r: "templates_in_range B_box"
    by (simp add: templates_in_range_def B_box_def Bundle_size_def)
  have a1: "bound_offsets first_upper_finder AFO B_box = Inr ([1, 1, 1], [0, 0, 0])"
    by (simp add: AFO_def bound_offsets_def minimizeCoeffs_def par0 par1 facts upts
        bound_dir_def first_upper_finder_def upd Let_def numeral_3_eq_3)
  have o1: "bound_offsets first_upper_finder OFO B_box = Inr ([1, 1, 2], [0, 0, 0])"
    by (simp add: OFO_def bound_offsets_def minimizeCoeffs_def par0 par1 facts upts
        bound_dir_def first_upper_finder_def upd Let_def numeral_3_eq_3)
  note t = transform_modes [OF c r, of first_upper_finder seven]
  from t obtain p m where
    "bound_offsets first_upper_finder AFO B_box = Inr (p, m)"
    "transform first_upper_finder seven AFO B_box =
       Inr \<lparr>dir_matrix = dir_matrix B_box, offp = p, offm = m, t_matrix = t_matrix B_box,
            constraintDirections = [], constraintOffsets = []\<rparr>"
    by blast
  with a1 have a2: "transform first_upper_finder seven AFO B_box =
      Inr \<lparr>dir_matrix = [[1, 0], [0, 1], [1, 1]], offp = [1, 1, 1], offm = [0, 0, 0],
           t_matrix = [[0, 1], [1, 2]], constraintDirections = [], constraintOffsets = []\<rparr>"
    by (simp add: sel)
  from t obtain p m R where
    "bound_offsets first_upper_finder OFO B_box = Inr (p, m)"
    "transform first_upper_finder seven OFO B_box = Inr R"
    "get_canonical seven
       \<lparr>dir_matrix = dir_matrix B_box, offp = p, offm = m, t_matrix = t_matrix B_box,
          constraintDirections = [], constraintOffsets = []\<rparr> = Inr R"
    by blast
  with o1 have "transform first_upper_finder seven OFO B_box =
      get_canonical seven
        \<lparr>dir_matrix = dir_matrix B_box, offp = [1, 1, 2], offm = [0, 0, 0],
           t_matrix = t_matrix B_box, constraintDirections = [], constraintOffsets = []\<rparr>"
    by simp
  then have o2: "transform first_upper_finder seven OFO B_box =
      Inr \<lparr>dir_matrix = [[1, 0], [0, 1], [1, 1]], offp = [7, 7, 7], offm = [7, 7, 7],
           t_matrix = [[0, 1], [1, 2]], constraintDirections = [], constraintOffsets = []\<rparr>"
    by (simp add: get_canonical_def new_Bundle_def sel Bundle_size_def seven_def upts Let_def)
  from c r a1 a2 o1 o2 show ?thesis by blast
qed

text \<open>In either mode the bundle returned keeps the direction and template matrices.\<close>

lemma get_canonical_keeps_matrices:
  "get_canonical maximize B = Inr R \<Longrightarrow> dir_matrix R = dir_matrix B \<and> t_matrix R = t_matrix B"
  by (auto simp: get_canonical_def new_Bundle_def Let_def split: if_splits)

lemma transform_keeps_matrices:
  assumes "transform max_finder maximize mode B = Inr R"
  shows "dir_matrix R = dir_matrix B \<and> t_matrix R = t_matrix B"
proof -
  from assms obtain c res where
    nb: "new_Bundle (dir_matrix B) (fst c) (snd c) (t_matrix B) = Inr res"
    and r: "(if mode = 0 then get_canonical maximize res else Inr res) = Inr R"
    by (auto simp: transform_def split: sum.splits)
  from nb have "dir_matrix res = dir_matrix B \<and> t_matrix res = t_matrix B"
    by (auto simp: new_Bundle_def split: if_splits)
  with r get_canonical_keeps_matrices [of maximize res R] show ?thesis
    by (auto split: if_splits)
qed

section \<open>Properties of reachability\<close>





section \<open>Properties of parameter synthesis\<close>


lemma synthesize_Atom:
  "assumptions_size S = 0 \<Longrightarrow>
     synthesize S init_set pSet (Atom e) = Inr (atom_synthesis S init_set pSet e)"
  by (simp add: synthesize.simps)


lemma scaling_fields:
  "assumptions_size scaling = 0"
  "atom_synthesis scaling init_set U e =
     filter (\<lambda>\<theta>. list_all (\<lambda>x. evaluate_at (env_of x \<theta>) e \<le> 0) init_set) U"
  "param_transform scaling init_set U = concat (map (\<lambda>x. map (\<lambda>\<theta>. \<theta> * x) U) init_set)"
  "intersect scaling U V = filter (\<lambda>u. u \<in> set V) U"
  "unite scaling U V = U @ V"
  "union_is_empty scaling U = (U = [])"
  by (simp_all add: scaling_def)

lemma scaling_always_at_1:
  "synthesize scaling [1] [1] always_at_1 = Inr [1]"
  "synthesize scaling [1] [1, 2] always_at_1 = Inr []"
proof -
  have at: "synthesize scaling i P x_le_1 =
      Inr (filter (\<lambda>\<theta>. list_all (\<lambda>x. x - 1 \<le> 0) i) P)" for i P
    by (simp add: x_le_1_def synthesize_Atom scaling_fields env_of_def)
  have step: "synthesize scaling i P always_at_1 =
      (if P = [] then Inr []
       else synthesize scaling (concat (map (\<lambda>x. map (\<lambda>\<theta>. \<theta> * x) P) i)) P x_le_1)" for i P
    unfolding always_at_1_def
    by (simp add: synthesize.simps [of _ _ _ "Always 1 1 x_le_1"]
        synthesize_always.simps [of _ _ _ 1 1 x_le_1 0] synthesize_always.simps [of _ _ _ 1 1 x_le_1 1]
        interval_is_empty_def interval_ahead_of_def transition_and_synthesis_def scaling_fields)
  show "synthesize scaling [1] [1] always_at_1 = Inr [1]"
    by (simp add: step at)
  show "synthesize scaling [1] [1, 2] always_at_1 = Inr []"
    by (simp add: step at)
qed

lemma union_points_Nil: "union_points pts [] = {}"
  by (simp add: union_points_def)

lemma transition_and_synthesis_subset:
  assumes "transition_and_synthesis S init_set P next_synth = Inr R"
    and "\<And>i p R'. next_synth i p = Inr R' \<Longrightarrow> union_points pts R' \<subseteq> union_points pts p"
  shows "union_points pts R \<subseteq> union_points pts P"
  using assms
  by (auto simp: transition_and_synthesis_def union_points_Nil split: if_splits)

lemma synthesize_subset_all:
  "set_operations pts S \<Longrightarrow> atom_refines pts S \<Longrightarrow>
     synthesize S init_set pSet formula = Inr R \<Longrightarrow>
     union_points pts R \<subseteq> union_points pts pSet"
  "set_operations pts S \<Longrightarrow> atom_refines pts S \<Longrightarrow>
     synthesize_until S init_set pSet l a b r time = Inr R \<Longrightarrow>
     union_points pts R \<subseteq> union_points pts pSet"
  "set_operations pts S \<Longrightarrow> atom_refines pts S \<Longrightarrow>
     synthesize_always S init_set pSet a b f time = Inr R \<Longrightarrow>
     union_points pts R \<subseteq> union_points pts pSet"
proof (induction S init_set pSet formula and S init_set pSet l a b r time
    and S init_set pSet a b f time arbitrary: R and R and R
    rule: synthesize_synthesize_until_synthesize_always.induct)
  case (1 S init_set pSet formula)
  note ops = "1.prems"(1) and at = "1.prems"(2) and run = "1.prems"(3)
  from run have na: "\<not> 0 < assumptions_size S"
    by (auto simp: synthesize.simps split: if_splits)
  show ?case
  proof (cases formula)
    case (Atom e)
    with run na at show ?thesis
      by (auto simp: synthesize.simps atom_refines_def)
  next
    case (Conjunction x y)
    with run na obtain Pu1 Pu2 where s1: "synthesize S init_set pSet x = Inr Pu1"
      and s2: "synthesize S init_set pSet y = Inr Pu2" and R: "R = intersect S Pu1 Pu2"
      by (auto simp: synthesize.simps split: sum.splits)
    from "1.IH"(1) [OF na Conjunction ops at s1]
    have "union_points pts Pu1 \<subseteq> union_points pts pSet" .
    with ops R show ?thesis
      by (auto simp: set_operations_def)
  next
    case (Disjunction x y)
    with run na obtain Pu Pu2 where s1: "synthesize S init_set pSet x = Inr Pu"
      and s2: "synthesize S init_set pSet y = Inr Pu2" and R: "R = unite S Pu Pu2"
      by (auto simp: synthesize.simps split: sum.splits)
    from "1.IH"(3) [OF na Disjunction ops at s1] "1.IH"(4) [OF na Disjunction s1 ops at s2]
    have "union_points pts Pu \<subseteq> union_points pts pSet"
      "union_points pts Pu2 \<subseteq> union_points pts pSet" .
    with ops R show ?thesis
      by (auto simp: set_operations_def)
  next
    case (Until x a b y)
    with run na have "synthesize_until S init_set pSet x a b y 0 = Inr R"
      by (simp add: synthesize.simps)
    from "1.IH"(5) [OF na Until ops at this] show ?thesis .
  next
    case (Always a b x)
    with run na have "synthesize_always S init_set pSet a b x 0 = Inr R"
      by (simp add: synthesize.simps)
    from "1.IH"(6) [OF na Always ops at this] show ?thesis .
  next
    case (Eventually a b x)
    with run na have "synthesize_until S init_set pSet (Atom (Const (- 1))) a b x 0 = Inr R"
      by (simp add: synthesize.simps)
    from "1.IH"(7) [OF na Eventually ops at this] show ?thesis .
  next
    case (Negation x)
    with run na show ?thesis
      by (simp add: synthesize.simps)
  qed
next
  case (2 S init_set pSet l a b r time)
  note ops = "2.prems"(1) and at = "2.prems"(2) and run = "2.prems"(3)
  show ?case
  proof (cases "interval_is_empty a b")
    case True
    with run show ?thesis
      by (simp add: synthesize_until.simps [of S init_set pSet l a b r time] union_points_Nil)
  next
    case ne: False
    show ?thesis
    proof (cases "interval_ahead_of a b time")
      case far: True
      from run ne far obtain P1 where s1: "synthesize S init_set pSet l = Inr P1"
        and rest: "(if union_is_empty S P1 then Inr P1
           else transition_and_synthesis S init_set P1
                  (\<lambda>i p. synthesize_until S i p l a b r (time + 1))) = Inr R"
        by (simp add: synthesize_until.simps [of S init_set pSet l a b r time] split: sum.splits)
      from "2.IH"(1) [OF ne far ops at s1]
      have sub1: "union_points pts P1 \<subseteq> union_points pts pSet" .
      show ?thesis
      proof (cases "union_is_empty S P1")
        case True
        with rest sub1 show ?thesis by simp
      next
        case False
        with rest have tr: "transition_and_synthesis S init_set P1
            (\<lambda>i p. synthesize_until S i p l a b r (time + 1)) = Inr R" by simp
        have "union_points pts R \<subseteq> union_points pts P1"
          by (rule transition_and_synthesis_subset [OF tr])
            (rule "2.IH"(2) [OF ne far s1 False ops at])
        with sub1 show ?thesis by blast
      qed
    next
      case near: False
      show ?thesis
      proof (cases "time < b")
        case inside: True
        from run ne near inside obtain P1 where s1: "synthesize S init_set pSet l = Inr P1"
          and rest: "(if union_is_empty S P1 then synthesize S init_set pSet r
             else (case transition_and_synthesis S init_set P1
                       (\<lambda>i p. synthesize_until S i p l a b r (time + 1)) of
                  Inl err \<Rightarrow> Inl err
                | Inr result \<Rightarrow>
                    (case synthesize S init_set pSet r of
                       Inl err \<Rightarrow> Inl err
                     | Inr P2 \<Rightarrow> Inr (unite S result P2)))) = Inr R"
          by (simp add: synthesize_until.simps [of S init_set pSet l a b r time]
              split: sum.splits)
        from "2.IH"(3) [OF ne near inside ops at s1]
        have sub1: "union_points pts P1 \<subseteq> union_points pts pSet" .
        show ?thesis
        proof (cases "union_is_empty S P1")
          case True
          with rest have "synthesize S init_set pSet r = Inr R" by simp
          from "2.IH"(4) [OF ne near inside s1 True ops at this] show ?thesis .
        next
          case False
          with rest obtain result P2 where
            tr: "transition_and_synthesis S init_set P1
                  (\<lambda>i p. synthesize_until S i p l a b r (time + 1)) = Inr result"
            and s2: "synthesize S init_set pSet r = Inr P2" and R: "R = unite S result P2"
            by (auto split: sum.splits)
          have "union_points pts result \<subseteq> union_points pts P1"
            by (rule transition_and_synthesis_subset [OF tr])
              (rule "2.IH"(5) [OF ne near inside s1 False ops at])
          moreover from "2.IH"(6) [OF ne near inside s1 False tr ops at s2]
          have "union_points pts P2 \<subseteq> union_points pts pSet" .
          ultimately show ?thesis
            using sub1 ops R by (auto simp: set_operations_def)
        qed
      next
        case last: False
        with run ne near have "synthesize S init_set pSet r = Inr R"
          by (simp add: synthesize_until.simps [of S init_set pSet l a b r time])
        from "2.IH"(7) [OF ne near last ops at this] show ?thesis .
      qed
    qed
  qed
next
  case (3 S init_set pSet a b f time)
  note ops = "3.prems"(1) and at = "3.prems"(2) and run = "3.prems"(3)
  show ?case
  proof (cases "interval_is_empty a b")
    case True
    with run show ?thesis
      by (simp add: synthesize_always.simps [of S init_set pSet a b f time] union_points_Nil)
  next
    case ne: False
    show ?thesis
    proof (cases "interval_ahead_of a b time")
      case far: True
      with run ne have tr: "transition_and_synthesis S init_set pSet
          (\<lambda>i p. synthesize_always S i p a b f (time + 1)) = Inr R"
        by (simp add: synthesize_always.simps [of S init_set pSet a b f time])
      show ?thesis
        by (rule transition_and_synthesis_subset [OF tr]) (rule "3.IH"(1) [OF ne far ops at])
    next
      case near: False
      show ?thesis
      proof (cases "time < b")
        case inside: True
        from run ne near inside obtain P where s1: "synthesize S init_set pSet f = Inr P"
          and rest: "(if union_is_empty S P then Inr P
             else transition_and_synthesis S init_set P
                    (\<lambda>i p. synthesize_always S i p a b f (time + 1))) = Inr R"
          by (simp add: synthesize_always.simps [of S init_set pSet a b f time]
              split: sum.splits)
        from "3.IH"(2) [OF ne near inside ops at s1]
        have sub1: "union_points pts P \<subseteq> union_points pts pSet" .
        show ?thesis
        proof (cases "union_is_empty S P")
          case True
          with rest sub1 show ?thesis by simp
        next
          case False
          with rest have tr: "transition_and_synthesis S init_set P
              (\<lambda>i p. synthesize_always S i p a b f (time + 1)) = Inr R" by simp
          have "union_points pts R \<subseteq> union_points pts P"
            by (rule transition_and_synthesis_subset [OF tr])
              (rule "3.IH"(3) [OF ne near inside s1 False ops at])
          with sub1 show ?thesis by blast
        qed
      next
        case last: False
        with run ne near have "synthesize S init_set pSet f = Inr R"
          by (simp add: synthesize_always.simps [of S init_set pSet a b f time])
        from "3.IH"(4) [OF ne near last ops at this] show ?thesis .
      qed
    qed
  qed
qed

lemma synthesize_propositional_monotone:
  assumes ops: "set_operations pts S" and mono: "atom_monotone pts S"
  shows "propositional formula \<Longrightarrow> union_points pts P \<subseteq> union_points pts P' \<Longrightarrow>
         synthesize S init_set P formula = Inr R \<Longrightarrow>
         synthesize S init_set P' formula = Inr R' \<Longrightarrow>
         union_points pts R \<subseteq> union_points pts R'"
proof (induction formula arbitrary: R R')
  case (Atom e)
  from Atom.prems(3) have na: "\<not> 0 < assumptions_size S"
    by (auto simp: synthesize.simps split: if_splits)
  with Atom.prems have "R = atom_synthesis S init_set P e" "R' = atom_synthesis S init_set P' e"
    by (simp_all add: synthesize.simps)
  with Atom.prems(2) mono show ?case
    unfolding atom_monotone_def by blast
next
  case (Conjunction x y)
  from Conjunction.prems(3) have na: "\<not> 0 < assumptions_size S"
    by (auto simp: synthesize.simps split: if_splits)
  from Conjunction.prems(3) na obtain A B where a: "synthesize S init_set P x = Inr A"
    and b: "synthesize S init_set P y = Inr B" and R: "R = intersect S A B"
    by (auto simp: synthesize.simps split: sum.splits)
  from Conjunction.prems(4) na obtain A' B' where a': "synthesize S init_set P' x = Inr A'"
    and b': "synthesize S init_set P' y = Inr B'" and R': "R' = intersect S A' B'"
    by (auto simp: synthesize.simps split: sum.splits)
  from Conjunction.prems(1) have px: "propositional x" and py: "propositional y" by simp_all
  from Conjunction.IH(1) [OF px Conjunction.prems(2) a a']
    Conjunction.IH(2) [OF py Conjunction.prems(2) b b'] ops R R'
  show ?case
    by (auto simp: set_operations_def)
next
  case (Disjunction x y)
  from Disjunction.prems(3) have na: "\<not> 0 < assumptions_size S"
    by (auto simp: synthesize.simps split: if_splits)
  from Disjunction.prems(3) na obtain A B where a: "synthesize S init_set P x = Inr A"
    and b: "synthesize S init_set P y = Inr B" and R: "R = unite S A B"
    by (auto simp: synthesize.simps split: sum.splits)
  from Disjunction.prems(4) na obtain A' B' where a': "synthesize S init_set P' x = Inr A'"
    and b': "synthesize S init_set P' y = Inr B'" and R': "R' = unite S A' B'"
    by (auto simp: synthesize.simps split: sum.splits)
  from Disjunction.prems(1) have px: "propositional x" and py: "propositional y" by simp_all
  from Disjunction.IH(1) [OF px Disjunction.prems(2) a a']
    Disjunction.IH(2) [OF py Disjunction.prems(2) b b'] ops R R'
  show ?case
    by (auto simp: set_operations_def)
qed simp_all

text \<open>
  Claim C4, as far as it holds. The operations that are parameters are taken to be sound:
  intersection and union of unions denote those of the sets, and atom synthesis refines
  its parameter set and is monotone in it. Then every parameter set \<^verbatim>\<open>synthesize\<close> returns
  is a subset of the parameter set it was given; and for a formula without temporal
  operators the result is monotone in the parameter set.
\<close>

theorem synthesize_refines:
  assumes "set_operations pts S" and "atom_refines pts S" and "atom_monotone pts S"
  shows "(synthesize S init_set P formula = Inr R \<longrightarrow>
            union_points pts R \<subseteq> union_points pts P) \<and>
         (propositional formula \<and> union_points pts P \<subseteq> union_points pts P' \<and>
          synthesize S init_set P formula = Inr R \<and>
          synthesize S init_set P' formula = Inr R' \<longrightarrow>
            union_points pts R \<subseteq> union_points pts R')"
  using assms synthesize_subset_all(1) [of pts S init_set P formula R]
    synthesize_propositional_monotone [of pts S formula P P' init_set R R']
  by blast

lemma scaling_sound:
  "set_operations singleton_points scaling" "atom_refines singleton_points scaling"
  "atom_monotone singleton_points scaling"
proof -
  have pts: "union_points singleton_points U = set U" for U
    by (simp add: union_points_def singleton_points_def)
  show "set_operations singleton_points scaling"
    by (auto simp: set_operations_def pts scaling_fields)
  show "atom_refines singleton_points scaling"
    by (auto simp: atom_refines_def pts scaling_fields)
  show "atom_monotone singleton_points scaling"
    by (auto simp: atom_monotone_def pts scaling_fields)
qed

text \<open>
  Claim C4 as stated fails in its second half. For the dynamics \<open>x \<mapsto> \<theta> x\<close> from the state
  \<open>1\<close> and the formula that requires \<open>x \<le> 1\<close> at time 1, the parameter set \<open>{1}\<close> is
  returned whole, while the larger set \<open>{1, 2}\<close> yields the empty set: the transform under
  the larger set reaches the state \<open>2\<close>, which violates the atom whatever the parameter.
  The synthesizer is exact in all its operations.
\<close>

theorem synthesize_not_monotone:
  "union_points singleton_points [1] \<subseteq> union_points singleton_points [1, 2] \<and>
   synthesize scaling [1] [1] always_at_1 = Inr [1] \<and>
   synthesize scaling [1] [1, 2] always_at_1 = Inr [] \<and>
   \<not> union_points singleton_points [1] \<subseteq> union_points singleton_points []"
  using scaling_always_at_1
  by (simp add: union_points_def singleton_points_def)

text \<open>
  The refinement theorem at the same synthesizer: the result for \<open>{1, 2}\<close> above is a
  subset of \<open>{1, 2}\<close>, and on the atom \<open>x \<le> 1\<close> from the state \<open>1\<close> the results for \<open>{1}\<close> and
  \<open>{1, 2}\<close> are ordered as the sets are.
\<close>

theorem synthesize_refines_witness:
  "set_operations singleton_points scaling \<and> atom_refines singleton_points scaling \<and>
   atom_monotone singleton_points scaling \<and>
   synthesize scaling [1] [1, 2] always_at_1 = Inr [] \<and>
   union_points singleton_points [] \<subseteq> union_points singleton_points [1, 2] \<and>
   propositional x_le_1 \<and>
   union_points singleton_points [1] \<subseteq> union_points singleton_points [1, 2] \<and>
   synthesize scaling [1] [1] x_le_1 = Inr [1] \<and>
   synthesize scaling [1] [1, 2] x_le_1 = Inr [1, 2] \<and>
   union_points singleton_points [1] \<subseteq> union_points singleton_points ([1, 2] :: real list)"
proof -
  have at: "synthesize scaling [1] [1] x_le_1 = Inr [1]"
    "synthesize scaling [1] [1, 2] x_le_1 = Inr [1, 2]"
    by (simp_all add: x_le_1_def synthesize_Atom scaling_fields env_of_def)
  have p: "propositional x_le_1"
    by (simp add: x_le_1_def)
  have sub: "union_points singleton_points [1] \<subseteq> union_points singleton_points ([1, 2] :: real list)"
    by (simp add: union_points_def singleton_points_def)
  note t = synthesize_refines [OF scaling_sound]
  from t [of "[1]" "[1, 2]" always_at_1 "[]"] scaling_always_at_1(2)
  have a: "union_points singleton_points [] \<subseteq> union_points singleton_points ([1, 2] :: real list)"
    by blast
  from t [of "[1]" "[1]" x_le_1 "[1]" "[1, 2]" "[1, 2]"] p sub at
  have b: "union_points singleton_points [1] \<subseteq> union_points singleton_points ([1, 2] :: real list)"
    by blast
  from scaling_sound scaling_always_at_1(2) a p sub at b show ?thesis by blast
qed














text \<open>
  Claim C8: on an eventually-formula \<^verbatim>\<open>synthesize\<close> returns what it returns on the
  until-formula with the same bounds and subformula whose left side is the atom of the
  constant \<open>-1\<close>, and that atom holds under every valuation of the symbols.
\<close>

theorem synthesize_eventually_as_until:
  "synthesize S init_set pSet (Eventually a b f) =
     synthesize S init_set pSet (Until (Atom (Const (- 1))) a b f) \<and>
   evaluate_at env (Const (- 1)) \<le> 0"
  by (simp add: synthesize.simps)

text \<open>The same at the scaling synthesizer and the formula "eventually \<open>x \<le> 1\<close> at time 1".\<close>

theorem synthesize_eventually_as_until_witness:
  "synthesize scaling [1] [1, 2] (Eventually 1 1 x_le_1) =
     synthesize scaling [1] [1, 2] (Until (Atom (Const (- 1))) 1 1 x_le_1) \<and>
   evaluate_at (env_of 1 2) (Const (- 1)) \<le> 0"
  using synthesize_eventually_as_until [of scaling "[1]" "[1, 2]" 1 1 x_le_1 "env_of 1 2"]
  by simp

section \<open>Properties of the positive normal form\<close>

lemma PNF_negation_free: "negation_free (PNF f) \<and> negation_free (PNF_neg f)"
  by (induction f) simp_all

lemma first_time:
  fixes t s :: int
  assumes "t \<le> s" "R s"
  obtains m where "t \<le> m" "m \<le> s" "R m" "\<And>u. t \<le> u \<Longrightarrow> u < m \<Longrightarrow> \<not> R u"
proof -
  define Q where "Q n = R (t + int n)" for n
  from assms have "Q (nat (s - t))" by (simp add: Q_def)
  then have q: "Q (LEAST n. Q n)" and le: "(LEAST n. Q n) \<le> nat (s - t)"
    by (rule LeastI, rule Least_le)
  define m where "m = t + int (LEAST n. Q n)"
  have "t \<le> m" by (simp add: m_def)
  moreover from le assms(1) have "m \<le> s" by (simp add: m_def)
  moreover from q have "R m" by (simp add: m_def Q_def)
  moreover have "\<not> R u" if "t \<le> u" "u < m" for u
  proof
    assume "R u"
    with that(1) have "Q (nat (u - t))" by (simp add: Q_def)
    then have "(LEAST n. Q n) \<le> nat (u - t)" by (rule Least_le)
    with that show False by (simp add: m_def)
  qed
  ultimately show ?thesis by (rule that)
qed

lemma not_until_from_now:
  fixes t b :: int
  shows "(\<not> (\<exists>t' \<in> {t .. t + b}. R t' \<and> (\<forall>t'' \<in> {t ..< t'}. L t''))) \<longleftrightarrow>
         ((\<exists>t' \<in> {t .. t + b}. (\<not> L t' \<and> \<not> R t') \<and> (\<forall>t'' \<in> {t ..< t'}. \<not> R t'')) \<or>
          (\<forall>t' \<in> {t .. t + b}. \<not> R t'))"
  (is "?N \<longleftrightarrow> ?U \<or> ?G")
proof
  assume n: ?N
  show "?U \<or> ?G"
  proof (cases ?G)
    case True
    then show ?thesis by blast
  next
    case False
    then obtain s where s: "t \<le> s" "s \<le> t + b" "R s" by auto
    from first_time [of t s R, OF s(1) s(3)] obtain m where
      m: "t \<le> m" "m \<le> s" "R m" "\<And>u. t \<le> u \<Longrightarrow> u < m \<Longrightarrow> \<not> R u"
      by blast
    from m(1,2) s(2) have "m \<in> {t .. t + b}" by simp
    with n m(3) have "\<not> (\<forall>t'' \<in> {t ..< m}. L t'')" by blast
    then obtain u where u: "t \<le> u" "u < m" "\<not> L u" by auto
    from u m(4) have "\<not> R u" by blast
    moreover from u m(4) have "\<forall>v \<in> {t ..< u}. \<not> R v" by auto
    moreover from u m(2) s(2) have "u \<in> {t .. t + b}" by simp
    ultimately have ?U using u(3) by blast
    then show ?thesis by blast
  qed
next
  assume "?U \<or> ?G"
  then show ?N
  proof
    assume ?U
    then obtain u where u: "u \<in> {t .. t + b}" "\<not> L u" "\<not> R u" "\<forall>v \<in> {t ..< u}. \<not> R v"
      by blast
    show ?N
    proof
      assume "\<exists>t' \<in> {t .. t + b}. R t' \<and> (\<forall>t'' \<in> {t ..< t'}. L t'')"
      then obtain s where s: "s \<in> {t .. t + b}" "R s" "\<forall>v \<in> {t ..< s}. L v" by blast
      from s(2) u(3) have "s \<noteq> u" by blast
      moreover from u(4) s(1,2) have "\<not> s < u" by auto
      ultimately have "u < s" by simp
      with u(1) s(3) have "L u" by simp
      with u(2) show False by blast
    qed
  next
    assume ?G
    then show ?N by blast
  qed
qed

lemma PNF_exact:
  "(exact \<sigma> f \<longrightarrow> (\<forall>t. sat \<sigma> t (PNF f) = sat \<sigma> t f)) \<and>
   (exact_neg \<sigma> f \<longrightarrow> (\<forall>t. sat \<sigma> t (PNF_neg f) = (\<not> sat \<sigma> t f)))"
proof (induction f)
  case (Atom e)
  show ?case
  proof (intro conjI impI allI)
    fix t
    show "sat \<sigma> t (PNF (Atom e)) = sat \<sigma> t (Atom e)" by simp
  next
    fix t
    assume "exact_neg \<sigma> (Atom e)"
    then have "evaluate_at (\<sigma> t) e \<noteq> 0" by simp
    then show "sat \<sigma> t (PNF_neg (Atom e)) = (\<not> sat \<sigma> t (Atom e))" by auto
  qed
next
  case (Until l a b r)
  show ?case
  proof (intro conjI impI allI)
    fix t
    assume "exact \<sigma> (Until l a b r)"
    with Until.IH show "sat \<sigma> t (PNF (Until l a b r)) = sat \<sigma> t (Until l a b r)" by simp
  next
    fix t
    assume "exact_neg \<sigma> (Until l a b r)"
    then have a: "a = 0" and nl: "\<forall>t. sat \<sigma> t (PNF_neg l) = (\<not> sat \<sigma> t l)"
      and nr: "\<forall>t. sat \<sigma> t (PNF_neg r) = (\<not> sat \<sigma> t r)"
      using Until.IH by simp_all
    show "sat \<sigma> t (PNF_neg (Until l a b r)) = (\<not> sat \<sigma> t (Until l a b r))"
      using not_until_from_now [of t b "\<lambda>u. sat \<sigma> u r" "\<lambda>u. sat \<sigma> u l"]
      by (simp add: a nl nr)
  qed
qed simp_all

text \<open>
  Claim C5, as far as it holds for the rewrite of the specification: the normal form of
  every formula has no negation node, and it holds at the same times of a trajectory as
  the formula when every until below an odd number of negations has the lower bound
  zero and no atom below an odd number of negations is exactly zero on the trajectory.
\<close>

theorem PNF_preserves:
  "negation_free (PNF formula) \<and>
   (exact \<sigma> formula \<longrightarrow> sat \<sigma> t (PNF formula) = sat \<sigma> t formula)"
  using PNF_negation_free [of formula] PNF_exact [of \<sigma> formula] by blast

lemma steady_intervals: "{0 + 1 .. 0 + 1} = {1::int}" "{0 ..< 1} = {0::int}"
  by auto

text \<open>
  Claim C5 as stated fails on a negated until with a positive lower bound. On the steady
  trajectory the left side of the until is violated at time 0, so the until is false and
  its negation true; the right side holds at time 1, so both disjuncts of the normal
  form are false. No atom is zero on the trajectory.
\<close>

theorem PNF_until_not_equivalent:
  "sat steady 0 not_until_1_1 \<and> \<not> sat steady 0 (PNF not_until_1_1)"
  by (simp add: not_until_1_1_def steady_def steady_intervals)

text \<open>
  The theorem at the negated until with bounds \<open>[0, 2]\<close> on the steady trajectory, and the
  normal form of a negated always-formula (the specification's scenario S5).
\<close>

theorem PNF_preserves_witness:
  "exact steady not_until_0_2 \<and> negation_free (PNF not_until_0_2) \<and>
   sat steady 0 (PNF not_until_0_2) = sat steady 0 not_until_0_2 \<and>
   PNF (Negation (Always 0 2 (Atom (Sub (Sym 0) (Const 3))))) =
     Eventually 0 2 (Atom (Neg (Sub (Sym 0) (Const 3))))"
proof -
  have e: "exact steady not_until_0_2"
    by (simp add: not_until_0_2_def steady_def)
  from PNF_preserves [of not_until_0_2 steady 0] e show ?thesis by simp
qed

end
